theory Spec2Isabelle
  imports Complex_Main "HOL-Library.Sublist" "HOL-Library.Multiset"
begin

section \<open>Data model\<close>

text \<open>
  \<^verbatim>\<open>meta_file.h\<close>: \<^verbatim>\<open>struct BlockInfo\<close> and \<^verbatim>\<open>struct TaskMeta\<close>. The fields
  \<^verbatim>\<open>int\<close> and \<^verbatim>\<open>int64_t\<close> are modelled as \<open>int\<close>; where a conversion between the
  two widths happens (the JSON layer) the wrap-around is written out.
\<close>

record BlockInfo =
  block_id :: int
  range_start :: int
  range_end :: int
  downloaded :: int
  completed :: bool

record TaskMeta =
  url :: string
  file_path :: string
  file_name :: string
  file_size :: int
  etag :: string
  last_modified :: string
  max_blocks :: int
  blocks :: "BlockInfo list"

text \<open>
  The value an integer has as an \<^verbatim>\<open>int\<close> and as an \<^verbatim>\<open>int64_t\<close>, with the wrap-around
  of two's complement.
\<close>

definition wrap32 :: "int \<Rightarrow> int" where
  "wrap32 v = (v + 2 ^ 31) mod 2 ^ 32 - 2 ^ 31"

definition wrap64 :: "int \<Rightarrow> int" where
  "wrap64 v = (v + 2 ^ 63) mod 2 ^ 64 - 2 ^ 63"

text \<open>The values an \<^verbatim>\<open>int\<close> and an \<^verbatim>\<open>int64_t\<close> can hold.\<close>

definition is_int32 :: "int \<Rightarrow> bool" where
  "is_int32 v = (- (2 ^ 31) \<le> v \<and> v < 2 ^ 31)"

definition is_int64 :: "int \<Rightarrow> bool" where
  "is_int64 v = (- (2 ^ 63) \<le> v \<and> v < 2 ^ 63)"

section \<open>Block splitter (\<^verbatim>\<open>block_splitter.cpp\<close>)\<close>

datatype error = InvalidArgument string

text \<open>
  The \<^verbatim>\<open>for (int i = 0; i < actual_blocks; ++i)\<close> loop of \<^verbatim>\<open>splitBlocks\<close>, with the
  running \<^verbatim>\<open>offset\<close>. Each iteration appends one block; the last block takes
  \<^verbatim>\<open>file_size - offset\<close> bytes.
\<close>

function split_loop :: "int \<Rightarrow> int \<Rightarrow> int \<Rightarrow> int \<Rightarrow> int \<Rightarrow> BlockInfo list" where
  "split_loop fsize actual_blocks block_size i offset =
     (if i < actual_blocks then
        (let this_size = (if i = actual_blocks - 1 then fsize - offset else block_size);
             b = \<lparr>block_id = i, range_start = offset, range_end = offset + this_size - 1,
                  downloaded = 0, completed = False\<rparr>
         in b # split_loop fsize actual_blocks block_size (i + 1) (offset + this_size))
      else [])"
  by pat_completeness auto
termination
  by (relation "measure (\<lambda>(fsize, n, bs, i, off). nat (n - i))") auto

declare split_loop.simps [simp del]

text \<open>
  \<^verbatim>\<open>splitBlocks(file_size, num_blocks, supports_range)\<close>. The two \<^verbatim>\<open>throw
  std::invalid_argument\<close> statements are the \<open>Inl\<close> results. All operands of \<^verbatim>\<open>/\<close>
  and \<^verbatim>\<open>%\<close> are positive here, where C++ truncation and \<open>div\<close>/\<open>mod\<close> agree.
\<close>

definition splitBlocks :: "int \<Rightarrow> int \<Rightarrow> bool \<Rightarrow> error + BlockInfo list" where
  "splitBlocks fsize num_blocks supports_range =
     (if fsize \<le> 0 then Inl (InvalidArgument ''file_size must be > 0'')
      else if num_blocks < 1 \<or> num_blocks > 32
        then Inl (InvalidArgument ''num_blocks must be in [1, 32]'')
      else if \<not> supports_range \<or> fsize < 2 * 1024 * 1024 then
        Inr [\<lparr>block_id = 0, range_start = 0, range_end = fsize - 1,
              downloaded = 0, completed = False\<rparr>]
      else
        (let actual_blocks = min num_blocks fsize;
             block_size = fsize div actual_blocks
         in Inr (split_loop fsize actual_blocks block_size 0 0)))"

text \<open>Size in bytes of a block's inclusive range.\<close>

definition range_size :: "BlockInfo \<Rightarrow> int" where
  "range_size b = range_end b - range_start b + 1"

text \<open>The properties of a block list that the splitter's contract names.\<close>

definition ids_consecutive :: "BlockInfo list \<Rightarrow> bool" where
  "ids_consecutive bs = (\<forall>i < length bs. block_id (bs ! i) = int i)"

definition all_fresh :: "BlockInfo list \<Rightarrow> bool" where
  "all_fresh bs = (\<forall>b \<in> set bs. downloaded b = 0 \<and> \<not> completed b)"

definition contiguous :: "BlockInfo list \<Rightarrow> bool" where
  "contiguous bs =
     (\<forall>i. i + 1 < length bs \<longrightarrow> range_end (bs ! i) + 1 = range_start (bs ! (i + 1)))"

definition covers :: "BlockInfo list \<Rightarrow> int \<Rightarrow> bool" where
  "covers bs fsize =
     (bs \<noteq> [] \<and> range_start (hd bs) = 0 \<and> range_end (last bs) = fsize - 1 \<and>
      (\<forall>b \<in> set bs. range_start b \<le> range_end b))"

text \<open>The list the loop builds, in closed form (used in the proofs only).\<close>

definition even_blocks :: "int \<Rightarrow> int \<Rightarrow> int \<Rightarrow> BlockInfo list" where
  "even_blocks fsize n bs =
     map (\<lambda>k. \<lparr>block_id = k, range_start = k * bs,
                range_end = (if k = n - 1 then fsize - 1 else (k + 1) * bs - 1),
                downloaded = 0, completed = False\<rparr>) [0..n - 1]"

section \<open>Task (\<^verbatim>\<open>task.h\<close>, \<^verbatim>\<open>task.cpp\<close>, \<^verbatim>\<open>block.cpp\<close>)\<close>

datatype TaskState = Queued | Downloading | Paused | Completed | Failed | Cancelled

text \<open>
  The result codes of libcurl that \<^verbatim>\<open>http_engine.cpp\<close> names, and one constructor for
  every other code.
\<close>

datatype CURLcode =
    CURLE_OK
  | CURLE_OPERATION_TIMEDOUT
  | CURLE_COULDNT_CONNECT
  | CURLE_COULDNT_RESOLVE_HOST
  | CURLE_COULDNT_RESOLVE_PROXY
  | CURLE_GOT_NOTHING
  | CURLE_RECV_ERROR
  | CURLE_SEND_ERROR
  | CURLE_PARTIAL_FILE
  | CURLE_SSL_CERTPROBLEM
  | CURLE_PEER_FAILED_VERIFICATION
  | CURLE_other nat

text \<open>
  \<^verbatim>\<open>class HttpError\<close> of \<^verbatim>\<open>http_engine.h\<close>: the exception a transfer raises. Its
  \<^verbatim>\<open>curl_code_\<close> holds a \<^verbatim>\<open>CURLcode\<close> cast to \<^verbatim>\<open>int\<close>.
\<close>

record HttpError =
  what :: string
  curlCode :: CURLcode
  httpStatus :: int
  isRetryable :: bool

text \<open>
  What the handlers of \<^verbatim>\<open>task.cpp\<close> tell apart: an \<^verbatim>\<open>HttpError\<close>, or any other
  \<^verbatim>\<open>std::exception\<close> with its \<^verbatim>\<open>what()\<close>.
\<close>

datatype exception = Http HttpError | Other string

text \<open>The fields of \<^verbatim>\<open>struct FileInfo\<close> that a task's control flow reads.\<close>

record FileInfo =
  content_length :: int
  fi_accept_ranges :: bool
  fi_etag :: string
  fi_last_modified :: string

text \<open>
  What a run of an orchestration lambda meets outside the task: the result of the probe
  (\<^verbatim>\<open>HttpEngine::fetchFileInfo\<close>) and whether \<^verbatim>\<open>allocateFile\<close> fails, with the message
  of its \<^verbatim>\<open>std::runtime_error\<close>.
\<close>

record BodyEnv =
  probe :: "HttpError + FileInfo"
  alloc_error :: "string option"

text \<open>
  A \<^verbatim>\<open>Block\<close> object: its \<^verbatim>\<open>info_\<close> and its \<^verbatim>\<open>paused_\<close> flag. The file handle and
  the borrowed engine and limiter are not part of the control state.
\<close>

record Block =
  info :: BlockInfo
  paused :: bool

definition Block_new :: "BlockInfo \<Rightarrow> Block" where
  "Block_new bi = \<lparr>info = bi, paused = False\<rparr>"

text \<open>
  The control state of a \<^verbatim>\<open>Task\<close>: \<^verbatim>\<open>state_\<close>, \<^verbatim>\<open>error_message_\<close>,
  \<^verbatim>\<open>file_size_\<close>, \<^verbatim>\<open>max_blocks_\<close>, \<^verbatim>\<open>accept_ranges_\<close>, the validators,
  \<^verbatim>\<open>auto_retry_count_\<close>, \<^verbatim>\<open>blocks_\<close>, and the two files it owns on disk: the size of
  the destination file where it exists (\<open>disk_size\<close>) and the block list last persisted by
  \<^verbatim>\<open>saveMeta\<close> where the metadata file exists (\<open>meta_blocks\<close>). Names, paths and the
  progress tally are not modelled: no branch of the methods below reads them.
\<close>

record Task =
  task_id :: int
  state :: TaskState
  error_message :: string
  t_file_size :: int
  t_max_blocks :: int
  accept_ranges :: bool
  t_etag :: string
  t_last_modified :: string
  auto_retry_count :: int
  t_blocks :: "Block list"
  disk_size :: "int option"
  meta_blocks :: "BlockInfo list option"

definition clamp :: "int \<Rightarrow> int \<Rightarrow> int \<Rightarrow> int" where
  "clamp v lo hi = (if v < lo then lo else if hi < v then hi else v)"

definition kMaxAutoRetries :: int where
  "kMaxAutoRetries = 3"

text \<open>The constructor: a task is born \<^verbatim>\<open>Queued\<close>, with no blocks and no files.\<close>

definition Task_new :: "int \<Rightarrow> int \<Rightarrow> Task" where
  "Task_new tid mb =
     \<lparr>task_id = tid, state = Queued, error_message = [], t_file_size = 0,
      t_max_blocks = clamp mb 1 32, accept_ranges = False, t_etag = [], t_last_modified = [],
      auto_retry_count = 0, t_blocks = [], disk_size = None, meta_blocks = None\<rparr>"

text \<open>
  \<^verbatim>\<open>Task::setState\<close> stores the new state and calls \<^verbatim>\<open>on_state_change_\<close> only when the
  state it read before the store differs. Every method returns the task together with the
  list of states passed to the callback, in order.
\<close>

definition Task_setState :: "TaskState \<Rightarrow> Task \<Rightarrow> Task \<times> TaskState list" where
  "Task_setState new_state t =
     (let old_state = state t;
          t' = t\<lparr>state := new_state\<rparr>
      in (t', if old_state \<noteq> new_state then [new_state] else []))"

definition Block_pause :: "Block \<Rightarrow> Block" where
  "Block_pause b = b\<lparr>paused := True\<rparr>"

definition Task_saveMeta :: "Task \<Rightarrow> Task" where
  "Task_saveMeta t = t\<lparr>meta_blocks := Some (map info (t_blocks t))\<rparr>"

text \<open>
  \<^verbatim>\<open>Task::start\<close>: the \<^verbatim>\<open>compare_exchange_strong\<close> from \<^verbatim>\<open>Queued\<close> stores
  \<^verbatim>\<open>Downloading\<close> first, then \<^verbatim>\<open>setState(Downloading)\<close> runs. The lambda it submits
  to the pool is \<open>start_body\<close> below and runs later, on a worker.
\<close>

definition Task_start :: "Task \<Rightarrow> Task \<times> TaskState list" where
  "Task_start t =
     (if state t \<noteq> Queued then (t, [])
      else Task_setState Downloading (t\<lparr>state := Downloading\<rparr>))"

definition Task_pause :: "Task \<Rightarrow> Task \<times> TaskState list" where
  "Task_pause t =
     (if state t \<noteq> Downloading then (t, [])
      else
        (let t1 = t\<lparr>state := Paused\<rparr>;
             t2 = t1\<lparr>t_blocks := map Block_pause (t_blocks t1)\<rparr>;
             t3 = Task_saveMeta t2
         in Task_setState Paused t3))"

text \<open>\<^verbatim>\<open>Task::resume\<close>; the lambda it submits is \<open>resume_body\<close> below.\<close>

definition Task_resume :: "Task \<Rightarrow> Task \<times> TaskState list" where
  "Task_resume t =
     (if state t = Paused then Task_setState Downloading (t\<lparr>state := Downloading\<rparr>)
      else if state t = Failed then Task_setState Downloading (t\<lparr>state := Downloading\<rparr>)
      else (t, []))"

text \<open>
  \<^verbatim>\<open>Task::cancel\<close> has no guard: it stores \<^verbatim>\<open>Cancelled\<close>, pauses every block, removes
  the destination file and the metadata file, and calls \<^verbatim>\<open>setState(Cancelled)\<close>.
\<close>

definition Task_cancel :: "Task \<Rightarrow> Task \<times> TaskState list" where
  "Task_cancel t =
     (let t1 = t\<lparr>state := Cancelled\<rparr>;
          t2 = t1\<lparr>t_blocks := map Block_pause (t_blocks t1)\<rparr>;
          t3 = t2\<lparr>disk_size := None\<rparr>;
          t4 = t3\<lparr>meta_blocks := None\<rparr>
      in Task_setState Cancelled t4)"

text \<open>
  \<^verbatim>\<open>Task::checkCompletion\<close>: \<^verbatim>\<open>fs::file_size\<close> throws when the file is missing, which
  the \<^verbatim>\<open>catch (...)\<close> turns into \<^verbatim>\<open>Failed\<close>. Moving the file to its category
  directory updates \<^verbatim>\<open>file_path_\<close> with it, so the file at \<^verbatim>\<open>file_path_\<close> keeps its
  size.
\<close>

definition Task_checkCompletion :: "Task \<Rightarrow> Task \<times> TaskState list" where
  "Task_checkCompletion t =
     (if t_file_size t > 0 \<and> disk_size t \<noteq> Some (t_file_size t)
      then Task_setState Failed t
      else
        (let (t1, cbs) = Task_setState Completed t
         in (t1\<lparr>meta_blocks := None\<rparr>, cbs)))"

text \<open>
  \<^verbatim>\<open>Task::onBlockProgress\<close>, run without interruption: it returns at once on a
  \<^verbatim>\<open>Cancelled\<close> task, and calls \<^verbatim>\<open>checkCompletion\<close> when every block is completed and
  the state is \<^verbatim>\<open>Downloading\<close>. The reads of the state and the stores of
  \<^verbatim>\<open>checkCompletion\<close> are separate atomic operations in the code;
  \<open>onBlockProgress_cancel_between\<close> below is the run with a \<^verbatim>\<open>cancel()\<close> between them.
\<close>

definition Task_onBlockProgress :: "int \<Rightarrow> Task \<Rightarrow> Task \<times> TaskState list" where
  "Task_onBlockProgress bytes_delta t =
     (if state t = Cancelled then (t, [])
      else
        (let all_done = list_all (\<lambda>b. completed (info b)) (t_blocks t)
         in if all_done \<and> state t = Downloading then Task_checkCompletion t else (t, [])))"

subsection \<open>The orchestration lambdas\<close>

text \<open>
  A function that can throw returns the exception, if any, with the task as the throw
  left it. \<^verbatim>\<open>allocateFile\<close> creates the file with its final size.
\<close>

definition allocateFile :: "BodyEnv \<Rightarrow> Task \<Rightarrow> exception option \<times> Task" where
  "allocateFile env t =
     (case alloc_error env of
        Some msg \<Rightarrow> (Some (Other msg), t)
      | None \<Rightarrow> (None, t\<lparr>disk_size := Some (t_file_size t)\<rparr>))"

text \<open>
  \<^verbatim>\<open>Task::createBlocks\<close> clears \<^verbatim>\<open>blocks_\<close> before it splits; a file of unknown size
  gets the one block with the sentinel range \<open>(-1, -1)\<close>.
\<close>

definition createBlocks :: "Task \<Rightarrow> exception option \<times> Task" where
  "createBlocks t =
     (let t0 = t\<lparr>t_blocks := []\<rparr>
      in if t_file_size t0 > 0 then
           (case splitBlocks (t_file_size t0) (t_max_blocks t0) (accept_ranges t0) of
              Inl (InvalidArgument msg) \<Rightarrow> (Some (Other msg), t0)
            | Inr block_infos \<Rightarrow> (None, t0\<lparr>t_blocks := map Block_new block_infos\<rparr>))
         else
           (None, t0\<lparr>t_blocks := [Block_new \<lparr>block_id = 0, range_start = - 1, range_end = - 1,
                                              downloaded = 0, completed = False\<rparr>]\<rparr>))"

text \<open>
  The tail shared by \<^verbatim>\<open>fetchFileInfoAndStart\<close> and the server-changed branch of
  \<^verbatim>\<open>resume\<close>: allocate when the size is known, create the blocks, persist them.
  \<^verbatim>\<open>submitBlocks\<close> then hands one worker per block to the pool.
\<close>

definition allocate_and_split :: "BodyEnv \<Rightarrow> Task \<Rightarrow> exception option \<times> Task" where
  "allocate_and_split env t =
     (case (if t_file_size t > 0 then allocateFile env t else (None, t)) of
        (Some ex, t1) \<Rightarrow> (Some ex, t1)
      | (None, t1) \<Rightarrow>
          (case createBlocks t1 of
             (Some ex, t2) \<Rightarrow> (Some ex, t2)
           | (None, t2) \<Rightarrow> (None, Task_saveMeta t2)))"

definition fetchFileInfoAndStart :: "BodyEnv \<Rightarrow> Task \<Rightarrow> exception option \<times> Task" where
  "fetchFileInfoAndStart env t =
     (case probe env of
        Inl e \<Rightarrow> (Some (Http e), t)
      | Inr fi \<Rightarrow>
          (let t1 = t\<lparr>t_file_size := content_length fi, accept_ranges := fi_accept_ranges fi,
                      t_etag := fi_etag fi, t_last_modified := fi_last_modified fi\<rparr>;
               t2 = (if t_file_size t1 \<le> 0 then t1\<lparr>accept_ranges := False, t_file_size := 0\<rparr>
                     else t1)
           in allocate_and_split env t2))"

text \<open>\<^verbatim>\<open>std::to_string\<close> on a status code.\<close>

fun nat_to_string :: "nat \<Rightarrow> string" where
  "nat_to_string n =
     (if n < 10 then [char_of (48 + n)]
      else nat_to_string (n div 10) @ [char_of (48 + n mod 10)])"

declare nat_to_string.simps [simp del]

definition to_string :: "int \<Rightarrow> string" where
  "to_string i = (if i < 0 then CHR ''-'' # nat_to_string (nat (- i)) else nat_to_string (nat i))"

definition http_message :: "HttpError \<Rightarrow> string" where
  "http_message e = what e @ '' (HTTP '' @ to_string (httpStatus e) @ '')''"

text \<open>
  The lambda of \<^verbatim>\<open>Task::start\<close>, with its two handlers. The automatic retry stores
  \<^verbatim>\<open>Queued\<close>, sleeps and calls \<^verbatim>\<open>start()\<close> again; the lambda is one step here, so no
  call from another thread falls inside the sleep.
\<close>

definition start_body :: "BodyEnv \<Rightarrow> Task \<Rightarrow> Task \<times> TaskState list" where
  "start_body env t =
     (case fetchFileInfoAndStart env t of
        (None, t1) \<Rightarrow> (t1, [])
      | (Some (Http e), t1) \<Rightarrow>
          (let t2 = t1\<lparr>error_message := http_message e\<rparr>
           in if isRetryable e \<and> auto_retry_count t2 < kMaxAutoRetries then
                Task_start (t2\<lparr>auto_retry_count := auto_retry_count t2 + 1, state := Queued\<rparr>)
              else Task_setState Failed t2)
      | (Some (Other msg), t1) \<Rightarrow> Task_setState Failed (t1\<lparr>error_message := msg\<rparr>))"

text \<open>
  The lambda of \<^verbatim>\<open>Task::resume\<close>. \<open>env\<close> is what its own probe and allocation meet,
  \<open>env2\<close> what the nested \<^verbatim>\<open>fetchFileInfoAndStart\<close> meets when no metadata loads.
\<close>

definition server_changed :: "Task \<Rightarrow> FileInfo \<Rightarrow> bool" where
  "server_changed t fi =
     ((t_etag t \<noteq> [] \<and> fi_etag fi \<noteq> [] \<and> t_etag t \<noteq> fi_etag fi) \<or>
      (t_last_modified t \<noteq> [] \<and> fi_last_modified fi \<noteq> [] \<and>
       t_last_modified t \<noteq> fi_last_modified fi))"

definition resume_steps :: "BodyEnv \<Rightarrow> BodyEnv \<Rightarrow> Task \<Rightarrow> exception option \<times> Task" where
  "resume_steps env env2 t =
     (case probe env of
        Inl e \<Rightarrow> (Some (Http e), t)
      | Inr fi \<Rightarrow>
          if server_changed t fi then
            (let t1 = t\<lparr>t_blocks := []\<rparr>;
                 t2 = t1\<lparr>t_file_size := content_length fi, accept_ranges := fi_accept_ranges fi,
                         t_etag := fi_etag fi, t_last_modified := fi_last_modified fi\<rparr>
             in allocate_and_split env t2)
          else
            (case meta_blocks t of
               None \<Rightarrow> fetchFileInfoAndStart env2 t
             | Some bis \<Rightarrow>
                 (None, t\<lparr>t_blocks := map Block_new (filter (\<lambda>bi. \<not> completed bi) bis)\<rparr>)))"

definition resume_body :: "BodyEnv \<Rightarrow> BodyEnv \<Rightarrow> Task \<Rightarrow> Task \<times> TaskState list" where
  "resume_body env env2 t =
     (case resume_steps env env2 t of
        (None, t1) \<Rightarrow> (t1, [])
      | (Some (Http e), t1) \<Rightarrow> Task_setState Failed (t1\<lparr>error_message := http_message e\<rparr>)
      | (Some (Other msg), t1) \<Rightarrow> Task_setState Failed (t1\<lparr>error_message := msg\<rparr>))"

subsection \<open>The block workers\<close>

text \<open>
  A block runs on a pool worker inside the lambda of \<^verbatim>\<open>Task::submitBlocks\<close>:
  \<^verbatim>\<open>try { block_ptr->execute(config); } catch (const std::exception&) { }\<close>.
  Its run is three kinds of step, so that calls from other threads can fall between them:
  entering \<^verbatim>\<open>Block::execute\<close>, one successful write inside the data callback, and the
  end of \<^verbatim>\<open>execute\<close>: \<^verbatim>\<open>engine_->download\<close> returns (\<open>None\<close>), or an exception leaves
  \<^verbatim>\<open>execute\<close> and the lambda swallows it. \<^verbatim>\<open>execute\<close> returns at once on a completed
  block. The data callback tests the pause flag before it waits for tokens and writes, so
  a write can still land after \<^verbatim>\<open>Block::pause\<close>; the write step therefore does not look
  at the flag.
\<close>

definition at_block :: "nat \<Rightarrow> (Block \<Rightarrow> Block) \<Rightarrow> Task \<Rightarrow> Task" where
  "at_block i f t =
     (if i < length (t_blocks t) then t\<lparr>t_blocks := (t_blocks t)[i := f (t_blocks t ! i)]\<rparr> else t)"

definition worker_enter :: "nat \<Rightarrow> Task \<Rightarrow> Task \<times> TaskState list" where
  "worker_enter i t =
     (at_block i (\<lambda>b. if completed (info b) then b else b\<lparr>paused := False\<rparr>) t, [])"

definition worker_written :: "nat \<Rightarrow> int \<Rightarrow> Task \<Rightarrow> Task \<times> TaskState list" where
  "worker_written i written t =
     (if i < length (t_blocks t) then
        (let b = t_blocks t ! i
         in if completed (info b) then (t, [])
            else
              Task_onBlockProgress written
                (at_block i (\<lambda>b. b\<lparr>info := (info b)\<lparr>downloaded := downloaded (info b) + written\<rparr>\<rparr>) t))
      else (t, []))"

definition worker_return :: "nat \<Rightarrow> exception option \<Rightarrow> Task \<Rightarrow> Task \<times> TaskState list" where
  "worker_return i outcome t =
     (if i < length (t_blocks t) then
        (let b = t_blocks t ! i
         in if completed (info b) then (t, [])
            else
              (case outcome of
                 Some ex \<Rightarrow> (t, [])
               | None \<Rightarrow>
                   if paused b then (t, [])
                   else Task_onBlockProgress 0
                          (at_block i (\<lambda>b. b\<lparr>info := (info b)\<lparr>completed := True\<rparr>\<rparr>) t)))
      else (t, []))"

text \<open>
  What a task receives: calls of its four public methods, progress callbacks, and the
  steps of the lambdas it handed to the pool.
\<close>

datatype TaskEvent =
    Start | Pause | Resume | Cancel
  | OnBlockProgress int
  | WorkerEnter nat | WorkerWritten nat int | WorkerReturn nat "exception option"
  | StartBody BodyEnv | ResumeBody BodyEnv BodyEnv

fun Task_step :: "TaskEvent \<Rightarrow> Task \<Rightarrow> Task \<times> TaskState list" where
  "Task_step Start t = Task_start t"
| "Task_step Pause t = Task_pause t"
| "Task_step Resume t = Task_resume t"
| "Task_step Cancel t = Task_cancel t"
| "Task_step (OnBlockProgress d) t = Task_onBlockProgress d t"
| "Task_step (WorkerEnter i) t = worker_enter i t"
| "Task_step (WorkerWritten i n) t = worker_written i n t"
| "Task_step (WorkerReturn i r) t = worker_return i r t"
| "Task_step (StartBody env) t = start_body env t"
| "Task_step (ResumeBody env env2) t = resume_body env env2 t"

fun Task_run :: "TaskEvent list \<Rightarrow> Task \<Rightarrow> Task" where
  "Task_run [] t = t"
| "Task_run (e # es) t = Task_run es (fst (Task_step e t))"

text \<open>
  Every event above is one step. In the code a call from another thread can also fall
  inside \<^verbatim>\<open>onBlockProgress\<close>, between its reading \<^verbatim>\<open>Downloading\<close> and the stores of
  \<^verbatim>\<open>checkCompletion\<close>. The callback with a \<^verbatim>\<open>cancel()\<close> landing there:
\<close>

definition onBlockProgress_cancel_between :: "int \<Rightarrow> Task \<Rightarrow> Task \<times> TaskState list" where
  "onBlockProgress_cancel_between bytes_delta t =
     (if state t = Cancelled then (t, [])
      else
        (let all_done = list_all (\<lambda>b. completed (info b)) (t_blocks t)
         in if all_done \<and> state t = Downloading then
              (let (t1, cbs1) = Task_cancel t;
                   (t2, cbs2) = Task_checkCompletion t1
               in (t2, cbs1 @ cbs2))
            else Task_cancel t))"

subsection \<open>Events of a failing block\<close>

text \<open>
  The steps of block workers in which every return of block \<open>i\<close> is an exception, and
  the condition that block \<open>i\<close> exists and is not completed.
\<close>

fun worker_step_failing :: "nat \<Rightarrow> TaskEvent \<Rightarrow> bool" where
  "worker_step_failing i (WorkerEnter j) = True"
| "worker_step_failing i (WorkerWritten j n) = True"
| "worker_step_failing i (WorkerReturn j r) = (j \<noteq> i \<or> r \<noteq> None)"
| "worker_step_failing i (OnBlockProgress d) = True"
| "worker_step_failing i e = False"

definition incomplete_at :: "nat \<Rightarrow> Task \<Rightarrow> bool" where
  "incomplete_at i t = (i < length (t_blocks t) \<and> \<not> completed (info (t_blocks t ! i)))"

subsection \<open>Inputs used in the scenarios\<close>

text \<open>A probe that succeeds with the given length on a server with range support.\<close>

definition probe_ok :: "int \<Rightarrow> BodyEnv" where
  "probe_ok n =
     \<lparr>probe = Inr \<lparr>content_length = n, fi_accept_ranges = True, fi_etag = [],
                    fi_last_modified = []\<rparr>,
      alloc_error = None\<rparr>"

text \<open>The error \<^verbatim>\<open>HttpEngine::download\<close> throws on a 404 response.\<close>

definition http_404 :: HttpError where
  "http_404 = \<lparr>what = ''HTTP error 404'', curlCode = CURLE_OK, httpStatus = 404, isRetryable = False\<rparr>"

text \<open>A probe that throws the given error.\<close>

definition probe_fails :: "HttpError \<Rightarrow> BodyEnv" where
  "probe_fails e = \<lparr>probe = Inl e, alloc_error = None\<rparr>"

text \<open>A task taken through a whole download of one block.\<close>

definition completed_task :: Task where
  "completed_task =
     Task_run [Start, StartBody (probe_ok 1000), WorkerEnter 0, WorkerReturn 0 None] (Task_new 1 8)"

text \<open>
  A task of one block whose worker has just set \<^verbatim>\<open>info_.completed\<close> and is about to make
  its last progress callback; a length of 0 is a file of unknown size.
\<close>

definition last_block_done :: "int \<Rightarrow> Task" where
  "last_block_done n =
     at_block 0 (\<lambda>b. b\<lparr>info := (info b)\<lparr>completed := True\<rparr>\<rparr>)
       (Task_run [Start, StartBody (probe_ok n), WorkerEnter 0] (Task_new 1 8))"

section \<open>Task queue (\<^verbatim>\<open>task_queue.cpp\<close>) and its wiring in \<^verbatim>\<open>download_manager.cpp\<close>\<close>

text \<open>
  \<^verbatim>\<open>tasks_\<close> holds shared pointers; a task object is the list element, and a method
  called on the object through another owner acts on that element.
\<close>

record TaskQueue =
  tasks :: "Task list"
  max_concurrent :: int
  active_count :: int
  auto_start :: bool

definition TaskQueue_new :: "int \<Rightarrow> TaskQueue" where
  "TaskQueue_new mx = \<lparr>tasks = [], max_concurrent = clamp mx 1 10, active_count = 0, auto_start = True\<rparr>"

text \<open>
  \<^verbatim>\<open>std::find_if\<close> over \<^verbatim>\<open>tasks_\<close> for \<^verbatim>\<open>getId() == task_id\<close>: the position of the
  first match, or the length of the list for \<^verbatim>\<open>tasks_.end()\<close>.
\<close>

fun find_if :: "int \<Rightarrow> Task list \<Rightarrow> nat" where
  "find_if tid [] = 0"
| "find_if tid (t # ts) = (if task_id t = tid then 0 else Suc (find_if tid ts))"

definition iter_swap :: "nat \<Rightarrow> nat \<Rightarrow> 'a list \<Rightarrow> 'a list" where
  "iter_swap i j xs = xs[i := xs ! j, j := xs ! i]"

text \<open>
  The loop of \<^verbatim>\<open>tryStartNext\<close>: it stops at the first task it meets with the cap
  reached, starts each \<^verbatim>\<open>Queued\<close> task before that and counts it.
\<close>

fun tryStartNext_loop :: "int \<Rightarrow> Task list \<Rightarrow> int \<Rightarrow> Task list \<times> int" where
  "tryStartNext_loop mx [] ac = ([], ac)"
| "tryStartNext_loop mx (t # ts) ac =
     (if ac \<ge> mx then (t # ts, ac)
      else if state t = Queued then
        (let (ts', ac') = tryStartNext_loop mx ts (ac + 1) in (fst (Task_start t) # ts', ac'))
      else
        (let (ts', ac') = tryStartNext_loop mx ts ac in (t # ts', ac')))"

definition tryStartNext :: "TaskQueue \<Rightarrow> TaskQueue" where
  "tryStartNext q =
     (if \<not> auto_start q then q
      else
        (let (ts, ac) = tryStartNext_loop (max_concurrent q) (tasks q) (active_count q)
         in q\<lparr>tasks := ts, active_count := ac\<rparr>))"

definition addTask :: "Task \<Rightarrow> TaskQueue \<Rightarrow> TaskQueue" where
  "addTask task q = tryStartNext (q\<lparr>tasks := tasks q @ [task]\<rparr>)"

definition onTaskFinished :: "int \<Rightarrow> TaskQueue \<Rightarrow> TaskQueue" where
  "onTaskFinished tid q =
     (let it = find_if tid (tasks q)
      in if it = length (tasks q) then q
         else tryStartNext (if active_count q > 0 then q\<lparr>active_count := active_count q - 1\<rparr> else q))"

text \<open>
  \<^verbatim>\<open>DownloadManager::onTaskStateChange\<close>, the callback every task of the manager is
  built with.
\<close>

fun onTaskStateChange :: "int \<Rightarrow> TaskState \<Rightarrow> TaskQueue \<Rightarrow> TaskQueue" where
  "onTaskStateChange tid Completed q = onTaskFinished tid q"
| "onTaskStateChange tid Failed q = onTaskFinished tid q"
| "onTaskStateChange tid Cancelled q = onTaskFinished tid q"
| "onTaskStateChange tid s q = q"

text \<open>
  \<^verbatim>\<open>TaskQueue::removeTask\<close>. After the erase and the admission it cancels the task it
  took out; the callbacks of that \<^verbatim>\<open>cancel\<close> reach the queue through the manager.
\<close>

definition removeTask :: "int \<Rightarrow> TaskQueue \<Rightarrow> bool \<times> TaskQueue" where
  "removeTask tid q =
     (let it = find_if tid (tasks q)
      in if it = length (tasks q) then (False, q)
         else
           (let task = tasks q ! it;
                was_active = (state task = Downloading);
                q1 = (if was_active then q\<lparr>active_count := active_count q - 1\<rparr> else q);
                q2 = q1\<lparr>tasks := take it (tasks q1) @ drop (Suc it) (tasks q1)\<rparr>;
                q3 = tryStartNext q2;
                (task', cbs) = Task_cancel task
            in (True, fold (onTaskStateChange tid) cbs q3)))"

definition moveUp :: "int \<Rightarrow> TaskQueue \<Rightarrow> bool \<times> TaskQueue" where
  "moveUp tid q =
     (let it = find_if tid (tasks q)
      in if it = length (tasks q) \<or> it = 0 then (False, q)
         else (True, q\<lparr>tasks := iter_swap it (it - 1) (tasks q)\<rparr>))"

definition moveDown :: "int \<Rightarrow> TaskQueue \<Rightarrow> bool \<times> TaskQueue" where
  "moveDown tid q =
     (let it = find_if tid (tasks q)
      in if it = length (tasks q) \<or> it + 1 = length (tasks q) then (False, q)
         else (True, q\<lparr>tasks := iter_swap it (it + 1) (tasks q)\<rparr>))"

definition setMaxConcurrent :: "int \<Rightarrow> TaskQueue \<Rightarrow> TaskQueue" where
  "setMaxConcurrent mx q = tryStartNext (q\<lparr>max_concurrent := clamp mx 1 10\<rparr>)"

text \<open>
  A task method called through the manager (\<^verbatim>\<open>pauseTask\<close>, \<^verbatim>\<open>resumeTask\<close>,
  \<^verbatim>\<open>cancelTask\<close>) or a worker step of a task: it acts on the task object, and each
  callback it makes runs \<^verbatim>\<open>onTaskStateChange\<close>.
\<close>

definition on_task :: "int \<Rightarrow> TaskEvent \<Rightarrow> TaskQueue \<Rightarrow> TaskQueue" where
  "on_task tid ev q =
     (let it = find_if tid (tasks q)
      in if it = length (tasks q) then q
         else
           (let (task', cbs) = Task_step ev (tasks q ! it)
            in fold (onTaskStateChange tid) cbs (q\<lparr>tasks := (tasks q)[it := task']\<rparr>)))"

definition num_downloading :: "TaskQueue \<Rightarrow> nat" where
  "num_downloading q = length (filter (\<lambda>t. state t = Downloading) (tasks q))"

text \<open>The queue of the reordering scenario: tasks 1, 2, 3 with automatic start off.\<close>

definition queue123 :: TaskQueue where
  "queue123 = \<lparr>tasks = [Task_new 1 1, Task_new 2 1, Task_new 3 1], max_concurrent = 10,
                active_count = 0, auto_start = False\<rparr>"

section \<open>HTTP engine: the retry loop of \<^verbatim>\<open>HttpEngine::download\<close>\<close>

definition isRetryableCurlCode :: "CURLcode \<Rightarrow> bool" where
  "isRetryableCurlCode code =
     (case code of
        CURLE_OPERATION_TIMEDOUT \<Rightarrow> True
      | CURLE_COULDNT_CONNECT \<Rightarrow> True
      | CURLE_COULDNT_RESOLVE_HOST \<Rightarrow> True
      | CURLE_COULDNT_RESOLVE_PROXY \<Rightarrow> True
      | CURLE_GOT_NOTHING \<Rightarrow> True
      | CURLE_RECV_ERROR \<Rightarrow> True
      | CURLE_SEND_ERROR \<Rightarrow> True
      | CURLE_PARTIAL_FILE \<Rightarrow> True
      | _ \<Rightarrow> False)"

definition isNonRetryableHttpStatus :: "int \<Rightarrow> bool" where
  "isNonRetryableHttpStatus http_code = (http_code \<ge> 400 \<and> http_code < 500)"

definition isTlsCertError :: "CURLcode \<Rightarrow> bool" where
  "isTlsCertError code =
     (case code of
        CURLE_SSL_CERTPROBLEM \<Rightarrow> True
      | CURLE_PEER_FAILED_VERIFICATION \<Rightarrow> True
      | _ \<Rightarrow> False)"

definition kRetryBackoffSec :: "int list" where
  "kRetryBackoffSec = [1, 2, 4]"

text \<open>
  What one iteration of the loop meets: whether \<^verbatim>\<open>cancel()\<close> has been called from
  another thread before the check at its top, during its backoff sleep, and during the
  transfer (after \<^verbatim>\<open>impl_->reset()\<close> has cleared the flag); an exception other than
  \<^verbatim>\<open>HttpError\<close> raised inside the \<^verbatim>\<open>try\<close>, if any; and what
  \<^verbatim>\<open>curl_easy_perform\<close> and \<^verbatim>\<open>CURLINFO_RESPONSE_CODE\<close> return.
\<close>

record Attempt =
  cancel_before :: bool
  cancel_in_sleep :: bool
  cancel_in_transfer :: bool
  threw :: "string option"
  res :: CURLcode
  http_code :: int

datatype Ev = Slept int | Attempted nat

record DownloadResult =
  thrown :: "HttpError option"
  events :: "Ev list"
  flag :: bool

definition cancelled_error :: "CURLcode \<Rightarrow> int \<Rightarrow> HttpError" where
  "cancelled_error code status =
     \<lparr>what = ''Download cancelled'', curlCode = code, httpStatus = status, isRetryable = False\<rparr>"

definition throw :: "HttpError \<Rightarrow> Ev list \<Rightarrow> bool \<Rightarrow> DownloadResult" where
  "throw e evs c = \<lparr>thrown = Some e, events = evs, flag = c\<rparr>"

definition backoff :: "nat \<Rightarrow> int" where
  "backoff attempt = kRetryBackoffSec ! min (attempt - 1) (length kRetryBackoffSec - 1)"

text \<open>
  One iteration of the \<^verbatim>\<open>for\<close> loop at \<open>attempt\<close>, with \<open>c\<close> the value of
  \<^verbatim>\<open>impl_->cancelled\<close> on entry: it ends the call (\<open>Stop\<close>: a \<^verbatim>\<open>throw\<close> or the
  \<^verbatim>\<open>return\<close>), or reaches a \<^verbatim>\<open>continue\<close> with \<^verbatim>\<open>last_error\<close> set. The events are
  the sleep and the attempt the iteration has made.
\<close>

datatype Iter = Stop DownloadResult | Continue "Ev list" HttpError bool

definition slept :: "nat \<Rightarrow> Ev list" where
  "slept attempt = (if attempt > 0 then [Slept (backoff attempt)] else [])"

definition iteration :: "(CURLcode \<Rightarrow> string) \<Rightarrow> Attempt \<Rightarrow> nat \<Rightarrow> bool \<Rightarrow> Iter" where
  "iteration strerror a attempt c =
     (if c \<or> cancel_before a then Stop (throw (cancelled_error CURLE_OK 0) [] True)
      else if attempt > 0 \<and> cancel_in_sleep a
        then Stop (throw (cancelled_error CURLE_OK 0) (slept attempt) True)
      else
        (let evs = slept attempt @ [Attempted attempt];
             c3 = cancel_in_transfer a
         in case threw a of
              Some msg \<Rightarrow>
                Stop (throw \<lparr>what = msg, curlCode = CURLE_OK, httpStatus = 0,
                              isRetryable = False\<rparr> evs c3)
            | None \<Rightarrow>
                if res a \<noteq> CURLE_OK then
                  (if c3 then Stop (throw (cancelled_error (res a) (http_code a)) evs True)
                   else
                     (let retryable = isRetryableCurlCode (res a);
                          msg = ''Download failed: '' @ strerror (res a)
                      in if isTlsCertError (res a) then
                           Stop (throw \<lparr>what = msg, curlCode = res a, httpStatus = http_code a,
                                         isRetryable = False\<rparr> evs False)
                         else
                           (let e = \<lparr>what = msg, curlCode = res a, httpStatus = http_code a,
                                      isRetryable = retryable\<rparr>
                            in if \<not> retryable then Stop (throw e evs False)
                               else Continue evs e False)))
                else if http_code a \<ge> 400 then
                  (let retryable = \<not> isNonRetryableHttpStatus (http_code a);
                       e = \<lparr>what = ''HTTP error '' @ to_string (http_code a),
                            curlCode = CURLE_OK, httpStatus = http_code a,
                            isRetryable = retryable\<rparr>
                   in if \<not> retryable then Stop (throw e evs c3) else Continue evs e c3)
                else Stop \<lparr>thrown = None, events = evs, flag = c3\<rparr>))"

text \<open>
  The loop: \<^verbatim>\<open>for (int attempt = 0; attempt < max_attempts; ++attempt)\<close>, and
  \<^verbatim>\<open>throw last_error\<close> after it.
\<close>

function download_loop ::
  "(CURLcode \<Rightarrow> string) \<Rightarrow> (nat \<Rightarrow> Attempt) \<Rightarrow> nat \<Rightarrow> nat \<Rightarrow> HttpError \<Rightarrow> bool \<Rightarrow> DownloadResult"
where
  "download_loop strerror env max_attempts attempt last_error c =
     (if \<not> attempt < max_attempts then throw last_error [] c
      else
        (case iteration strerror (env attempt) attempt c of
           Stop r \<Rightarrow> r
         | Continue evs e c' \<Rightarrow>
             (let r = download_loop strerror env max_attempts (Suc attempt) e c'
              in r\<lparr>events := evs @ events r\<rparr>)))"
  by pat_completeness auto
termination
  by (relation "measure (\<lambda>(s, env, n, a, e, c). n - a)") auto

declare download_loop.simps [simp del]

text \<open>\<^verbatim>\<open>struct HttpConfig\<close>; the loop reads \<^verbatim>\<open>max_retries\<close>.\<close>

record HttpConfig =
  connect_timeout_sec :: int
  transfer_timeout_sec :: int
  low_speed_limit :: int
  low_speed_time :: int
  max_redirects :: int
  max_retries :: int
  verify_ssl :: bool
  username :: string
  password :: string
  referer :: string
  cookie :: string

definition HttpConfig_default :: HttpConfig where
  "HttpConfig_default =
     \<lparr>connect_timeout_sec = 30, transfer_timeout_sec = 0, low_speed_limit = 1000,
      low_speed_time = 60, max_redirects = 10, max_retries = 3, verify_ssl = True,
      username = [], password = [], referer = [], cookie = []\<rparr>"

text \<open>
  \<^verbatim>\<open>const int max_attempts = config.max_retries + 1\<close>, an addition of \<^verbatim>\<open>int\<close>: at
  \<^verbatim>\<open>INT_MAX\<close> it wraps to \<^verbatim>\<open>INT_MIN\<close> and the loop is not entered. The loop counter
  runs from 0, so a bound that is not positive means no iteration.
\<close>

definition max_attempts :: "HttpConfig \<Rightarrow> int" where
  "max_attempts config = wrap32 (max_retries config + 1)"

definition download :: "(CURLcode \<Rightarrow> string) \<Rightarrow> (nat \<Rightarrow> Attempt) \<Rightarrow> HttpConfig \<Rightarrow> bool \<Rightarrow> DownloadResult" where
  "download strerror env config c =
     download_loop strerror env (nat (max_attempts config)) 0
       \<lparr>what = ''Unknown error'', curlCode = CURLE_OK, httpStatus = 0, isRetryable = False\<rparr> c"

subsection \<open>The schedule and the classes of failure\<close>

text \<open>
  The sleep before attempt \<open>k\<close> (counted from 0): one second before the second attempt,
  two before the third, four before every later one; and the events of a call in which
  every one of \<open>n\<close> attempts is made.
\<close>

definition backoff_spec :: "nat \<Rightarrow> int" where
  "backoff_spec k = (if k = 1 then 1 else if k = 2 then 2 else 4)"

definition schedule :: "nat \<Rightarrow> nat \<Rightarrow> Ev list" where
  "schedule a n =
     concat (map (\<lambda>k. (if k > 0 then [Slept (backoff_spec k)] else []) @ [Attempted k]) [a..<n])"

text \<open>Counting attempts.\<close>

fun is_attempt :: "Ev \<Rightarrow> bool" where
  "is_attempt (Attempted k) = True"
| "is_attempt (Slept s) = False"

text \<open>
  The failures after which the loop goes on: the curl codes of \<^verbatim>\<open>isRetryableCurlCode\<close>
  (timeout, no connection or an empty reply, DNS failure of host or proxy, partial
  transfer, send or receive error), or a transfer that succeeded with a status of 400 or
  more that \<^verbatim>\<open>isNonRetryableHttpStatus\<close> does not name, that is, any status from 500 up:
  the 5xx codes, and 600 and above as well.
\<close>

definition retried_failure :: "Attempt \<Rightarrow> bool" where
  "retried_failure a =
     (res a = CURLE_OPERATION_TIMEDOUT \<or>
      res a = CURLE_COULDNT_CONNECT \<or> res a = CURLE_GOT_NOTHING \<or>
      res a = CURLE_COULDNT_RESOLVE_HOST \<or> res a = CURLE_COULDNT_RESOLVE_PROXY \<or>
      res a = CURLE_PARTIAL_FILE \<or>
      res a = CURLE_SEND_ERROR \<or> res a = CURLE_RECV_ERROR \<or>
      (res a = CURLE_OK \<and> 500 \<le> http_code a))"

text \<open>
  What fails at once: a response with an HTTP 4xx status, a TLS certificate failure, or a
  transfer that failed while \<^verbatim>\<open>cancel()\<close> was called.
\<close>

definition fatal_failure :: "Attempt \<Rightarrow> bool" where
  "fatal_failure a =
     ((res a = CURLE_OK \<and> 400 \<le> http_code a \<and> http_code a < 500) \<or>
      res a = CURLE_SSL_CERTPROBLEM \<or> res a = CURLE_PEER_FAILED_VERIFICATION \<or>
      (res a \<noteq> CURLE_OK \<and> cancel_in_transfer a))"

subsection \<open>Inputs used in the scenarios\<close>

text \<open>
  A transfer that succeeds with status 200; a server that answers 503 twice and then 200;
  a server that answers 404.
\<close>

definition ok_attempt :: Attempt where
  "ok_attempt = \<lparr>cancel_before = False, cancel_in_sleep = False, cancel_in_transfer = False,
                 threw = None, res = CURLE_OK, http_code = 200\<rparr>"

definition retry_env :: "nat \<Rightarrow> Attempt" where
  "retry_env k = (if k < 2 then ok_attempt\<lparr>http_code := 503\<rparr> else ok_attempt)"

definition not_found_env :: "nat \<Rightarrow> Attempt" where
  "not_found_env k = ok_attempt\<lparr>http_code := 404\<rparr>"


section \<open>Progress monitor (\<^verbatim>\<open>progress_monitor.h\<close>, \<^verbatim>\<open>progress_monitor.cpp\<close>)\<close>

text \<open>
  Times are readings of \<^verbatim>\<open>steady_clock\<close> in nanoseconds. A \<^verbatim>\<open>double\<close> is modelled by
  a real number and \<^verbatim>\<open>static_cast<int>\<close> by truncation towards zero. Where the
  truncated value does not fit an \<^verbatim>\<open>int\<close> the conversion is undefined in C++; the model
  returns \<^verbatim>\<open>INT_MIN\<close> there, the result of the conversion instruction of x86-64.
\<close>

record Sample =
  time :: int
  bytes :: int

record ProgressInfo =
  total_bytes :: int
  downloaded_bytes :: int
  speed_bytes_per_sec :: real
  progress_percent :: real
  remaining_seconds :: int

record ProgressMonitor =
  pm_total_bytes :: int
  pm_downloaded_bytes :: int
  pm_samples :: "Sample list"

definition WINDOW_SIZE_SEC :: int where
  "WINDOW_SIZE_SEC = 5"

definition ProgressMonitor_new :: "int \<Rightarrow> ProgressMonitor" where
  "ProgressMonitor_new tot = \<lparr>pm_total_bytes = tot, pm_downloaded_bytes = 0, pm_samples = []\<rparr>"

definition addBytes :: "int \<Rightarrow> int \<Rightarrow> ProgressMonitor \<Rightarrow> ProgressMonitor" where
  "addBytes now n pm =
     (if n \<le> 0 then pm
      else
        (let d = pm_downloaded_bytes pm + n
         in pm\<lparr>pm_downloaded_bytes := d, pm_samples := pm_samples pm @ [\<lparr>time = now, bytes = d\<rparr>]\<rparr>))"

definition cast_int :: "real \<Rightarrow> int" where
  "cast_int x =
     (let truncated = (if x < 0 then \<lceil>x\<rceil> else \<lfloor>x\<rfloor>)
      in if is_int32 truncated then truncated else - (2 ^ 31))"

definition snapshot :: "int \<Rightarrow> ProgressMonitor \<Rightarrow> ProgressInfo \<times> ProgressMonitor" where
  "snapshot now pm =
     (let percent = (if pm_total_bytes pm > 0
                     then real_of_int (pm_downloaded_bytes pm) / real_of_int (pm_total_bytes pm) * 100
                     else 0);
          cutoff = now - WINDOW_SIZE_SEC * 1000000000;
          kept = dropWhile (\<lambda>s. time s < cutoff) (pm_samples pm);
          speed = (if length kept \<ge> 2 then
                     (let elapsed = real_of_int (time (last kept) - time (hd kept)) / 1000000000
                      in if elapsed > 0
                         then real_of_int (bytes (last kept) - bytes (hd kept)) / elapsed
                         else 0)
                   else 0);
          remaining = (if speed > 0
                       then cast_int (real_of_int (pm_total_bytes pm - pm_downloaded_bytes pm) / speed)
                       else - 1)
      in (\<lparr>total_bytes = pm_total_bytes pm, downloaded_bytes = pm_downloaded_bytes pm,
           speed_bytes_per_sec = speed, progress_percent = percent,
           remaining_seconds = remaining\<rparr>,
          pm\<lparr>pm_samples := kept\<rparr>))"

section \<open>Token bucket (\<^verbatim>\<open>token_bucket.h\<close>, \<^verbatim>\<open>token_bucket.cpp\<close>)\<close>

text \<open>
  Times are readings of \<^verbatim>\<open>steady_clock\<close> in microseconds. \<^verbatim>\<open>refill\<close> computes the new
  tokens in floating point: \<^verbatim>\<open>rate_\<close> and \<^verbatim>\<open>elapsed\<close> are converted to \<^verbatim>\<open>double\<close>,
  multiplied and divided by \<^verbatim>\<open>1'000'000.0\<close>, and the result is converted to \<^verbatim>\<open>int64_t\<close>.
  That computation is the parameter \<open>fp\<close> of the model, a function of the rate and of the
  elapsed microseconds: what is proved below holds for every such function, whatever the
  rounding. \<open>exact_tokens\<close> is its value where no operation rounds. The sum
  \<^verbatim>\<open>tokens_ + new_tokens\<close> is an addition of \<^verbatim>\<open>int64_t\<close>.
\<close>

definition exact_tokens :: "int \<Rightarrow> int \<Rightarrow> int" where
  "exact_tokens r elapsed = (r * elapsed) div 1000000"

record TokenBucket =
  rate :: int
  tokens :: int
  max_tokens :: int
  last_refill :: int
  cancelled :: bool

definition TokenBucket_new :: "int \<Rightarrow> int \<Rightarrow> TokenBucket" where
  "TokenBucket_new rate_bytes_per_sec now =
     \<lparr>rate = rate_bytes_per_sec, tokens = rate_bytes_per_sec, max_tokens = rate_bytes_per_sec,
      last_refill = now, cancelled = False\<rparr>"

definition refill :: "(int \<Rightarrow> int \<Rightarrow> int) \<Rightarrow> int \<Rightarrow> TokenBucket \<Rightarrow> TokenBucket" where
  "refill fp now tb =
     (let elapsed = now - last_refill tb
      in if elapsed \<le> 0 \<or> rate tb \<le> 0 then tb
         else
           (let new_tokens = fp (rate tb) elapsed
            in if new_tokens > 0
               then tb\<lparr>tokens := min (wrap64 (tokens tb + new_tokens)) (max_tokens tb),
                       last_refill := now\<rparr>
               else tb))"

definition setRate :: "(int \<Rightarrow> int \<Rightarrow> int) \<Rightarrow> int \<Rightarrow> int \<Rightarrow> TokenBucket \<Rightarrow> TokenBucket" where
  "setRate fp rate_bytes_per_sec now tb =
     (let tb1 = refill fp now tb;
          tb2 = tb1\<lparr>rate := rate_bytes_per_sec, max_tokens := rate_bytes_per_sec\<rparr>
      in if max_tokens tb2 > 0 \<and> tokens tb2 > max_tokens tb2
         then tb2\<lparr>tokens := max_tokens tb2\<rparr> else tb2)"

definition TokenBucket_cancel :: "TokenBucket \<Rightarrow> TokenBucket" where
  "TokenBucket_cancel tb = tb\<lparr>cancelled := True\<rparr>"

text \<open>
  What other threads do while an \<^verbatim>\<open>acquire\<close> waits on the condition variable, with the
  mutex released: calls of \<^verbatim>\<open>setRate\<close> and \<^verbatim>\<open>cancel\<close>, and acquisitions that succeed
  at once. A wait ends at \<open>woke_at\<close>, by its deadline or by a notification.
\<close>

datatype EnvCall = EnvSetRate int int | EnvCancel | EnvTake int int

fun env_call :: "(int \<Rightarrow> int \<Rightarrow> int) \<Rightarrow> EnvCall \<Rightarrow> TokenBucket \<Rightarrow> TokenBucket" where
  "env_call fp (EnvSetRate r now) tb = setRate fp r now tb"
| "env_call fp EnvCancel tb = TokenBucket_cancel tb"
| "env_call fp (EnvTake n now) tb =
     (if n \<le> 0 \<or> rate tb = 0 \<or> cancelled tb then tb
      else
        (let tb1 = refill fp now tb
         in if tokens tb1 \<ge> n then tb1\<lparr>tokens := tokens tb1 - n\<rparr> else tb1))"

record Wait =
  during :: "EnvCall list"
  woke_at :: int

text \<open>
  The \<^verbatim>\<open>while (true)\<close> of \<^verbatim>\<open>acquire\<close>, entered at time \<open>now\<close>. Each wait it makes
  takes the next element of the list; the result is \<open>None\<close> when the list ends with the
  call still waiting.
\<close>

fun acquire_loop ::
  "(int \<Rightarrow> int \<Rightarrow> int) \<Rightarrow> int \<Rightarrow> int \<Rightarrow> Wait list \<Rightarrow> TokenBucket \<Rightarrow> int option \<times> TokenBucket"
where
  "acquire_loop fp n now ws tb =
     (if cancelled tb then (Some 0, tb)
      else
        (let tb1 = refill fp now tb
         in if tokens tb1 \<ge> n then (Some n, tb1\<lparr>tokens := tokens tb1 - n\<rparr>)
            else
              (case ws of
                 [] \<Rightarrow> (None, tb1)
               | w # ws' \<Rightarrow>
                   (let tb2 = fold (env_call fp) (during w) tb1
                    in if rate tb2 = 0 then (Some n, tb2)
                       else acquire_loop fp n (woke_at w) ws' tb2))))"

declare acquire_loop.simps [simp del]

definition acquire ::
  "(int \<Rightarrow> int \<Rightarrow> int) \<Rightarrow> int \<Rightarrow> int \<Rightarrow> Wait list \<Rightarrow> TokenBucket \<Rightarrow> int option \<times> TokenBucket"
where
  "acquire fp n now ws tb =
     (if n \<le> 0 then (Some 0, tb)
      else if rate tb = 0 then (Some n, tb)
      else acquire_loop fp n now ws tb)"

subsection \<open>Inputs used in the scenarios\<close>

text \<open>
  A bucket of 100 bytes per second that has just been emptied, and a wait of one
  millisecond during which nothing happens.
\<close>

definition drained_bucket :: TokenBucket where
  "drained_bucket = snd (acquire exact_tokens 100 5 [] (TokenBucket_new 100 0))"

definition idle_wait :: Wait where
  "idle_wait = \<lparr>during = [], woke_at = 1000\<rparr>"

definition cancel_wait :: Wait where
  "cancel_wait = \<lparr>during = [EnvCancel], woke_at = 1500\<rparr>"

section \<open>Metadata file (\<^verbatim>\<open>meta_file.cpp\<close>)\<close>

text \<open>
  The value tree of the JSON library the file is written with. Its integers are
  \<^verbatim>\<open>int64_t\<close>; floating-point numbers, which a saved record never holds, are left out.
\<close>

datatype json =
    JNull
  | JBool bool
  | JInt int
  | JString string
  | JArray "json list"
  | JObject "(string \<times> json) list"

text \<open>
  \<^verbatim>\<open>j.at(key)\<close> throws unless \<open>j\<close> is an object with the key, and \<^verbatim>\<open>get<T>()\<close> throws
  on a value of the wrong kind; \<open>None\<close> is the exception. \<^verbatim>\<open>get<int>()\<close> converts a boolean
  as well; \<^verbatim>\<open>get<int64_t>()\<close>, which asks for the library's own integer type, does not.
  Iterating a value that is not an array visits an object's values, a null not at all, and
  any other value once.
\<close>

definition json_at :: "json \<Rightarrow> string \<Rightarrow> json option" where
  "json_at j key = (case j of JObject kvs \<Rightarrow> map_of kvs key | _ \<Rightarrow> None)"

definition get_int :: "json \<Rightarrow> int option" where
  "get_int j =
     (case j of JInt v \<Rightarrow> Some (wrap32 v) | JBool b \<Rightarrow> Some (if b then 1 else 0) | _ \<Rightarrow> None)"

definition get_int64 :: "json \<Rightarrow> int option" where
  "get_int64 j = (case j of JInt v \<Rightarrow> Some (wrap64 v) | _ \<Rightarrow> None)"

definition get_bool :: "json \<Rightarrow> bool option" where
  "get_bool j = (case j of JBool b \<Rightarrow> Some b | _ \<Rightarrow> None)"

definition get_string :: "json \<Rightarrow> string option" where
  "get_string j = (case j of JString s \<Rightarrow> Some s | _ \<Rightarrow> None)"

definition elements :: "json \<Rightarrow> json list" where
  "elements j =
     (case j of JArray xs \<Rightarrow> xs | JObject kvs \<Rightarrow> map snd kvs | JNull \<Rightarrow> [] | _ \<Rightarrow> [j])"

definition blockInfoToJson :: "BlockInfo \<Rightarrow> json" where
  "blockInfoToJson b =
     JObject [(''block_id'', JInt (block_id b)),
              (''range_start'', JInt (range_start b)),
              (''range_end'', JInt (range_end b)),
              (''downloaded'', JInt (downloaded b)),
              (''completed'', JBool (completed b))]"

definition blockInfoFromJson :: "json \<Rightarrow> BlockInfo option" where
  "blockInfoFromJson j =
     Option.bind (Option.bind (json_at j ''block_id'') get_int) (\<lambda>bid.
     Option.bind (Option.bind (json_at j ''range_start'') get_int64) (\<lambda>rs.
     Option.bind (Option.bind (json_at j ''range_end'') get_int64) (\<lambda>re.
     Option.bind (Option.bind (json_at j ''downloaded'') get_int64) (\<lambda>dl.
     Option.bind (Option.bind (json_at j ''completed'') get_bool) (\<lambda>cp.
       Some \<lparr>block_id = bid, range_start = rs, range_end = re, downloaded = dl,
             completed = cp\<rparr>)))))"

definition taskMetaToJson :: "TaskMeta \<Rightarrow> json" where
  "taskMetaToJson meta =
     JObject [(''url'', JString (url meta)),
              (''file_path'', JString (file_path meta)),
              (''file_name'', JString (file_name meta)),
              (''file_size'', JInt (file_size meta)),
              (''etag'', JString (etag meta)),
              (''last_modified'', JString (last_modified meta)),
              (''max_blocks'', JInt (max_blocks meta)),
              (''blocks'', JArray (map blockInfoToJson (blocks meta)))]"

definition taskMetaFromJson :: "json \<Rightarrow> TaskMeta option" where
  "taskMetaFromJson j =
     Option.bind (Option.bind (json_at j ''url'') get_string) (\<lambda>u.
     Option.bind (Option.bind (json_at j ''file_path'') get_string) (\<lambda>fp.
     Option.bind (Option.bind (json_at j ''file_name'') get_string) (\<lambda>fn.
     Option.bind (Option.bind (json_at j ''file_size'') get_int64) (\<lambda>fs.
     Option.bind (Option.bind (json_at j ''etag'') get_string) (\<lambda>et.
     Option.bind (Option.bind (json_at j ''last_modified'') get_string) (\<lambda>lm.
     Option.bind (Option.bind (json_at j ''max_blocks'') get_int) (\<lambda>mb.
     Option.bind (json_at j ''blocks'') (\<lambda>bj.
     Option.bind (those (map blockInfoFromJson (elements bj))) (\<lambda>bs.
       Some \<lparr>url = u, file_path = fp, file_name = fn, file_size = fs, etag = et,
             last_modified = lm, max_blocks = mb, blocks = bs\<rparr>)))))))))"

subsection \<open>The JSON library\<close>

text \<open>
  \<^verbatim>\<open>nlohmann::json\<close> is not part of the repository. Two facts of its documentation decide
  what \<^verbatim>\<open>save\<close> and \<^verbatim>\<open>load\<close> do on the records below, and only they are modelled;
  the text \<^verbatim>\<open>dump\<close> writes for a document it accepts, and what \<^verbatim>\<open>json::parse\<close> makes
  of a text that is not empty, are the parameters \<open>render\<close> and \<open>read\<close>.

  \<^item> \<^verbatim>\<open>dump\<close> decodes every string byte by byte with a UTF-8 automaton and throws
    \<^verbatim>\<open>type_error.316\<close> when a byte is rejected or the string ends inside a sequence.
    The automaton accepts the well-formed sequences of the Unicode standard: no
    overlong forms, no surrogates, nothing above U+10FFFF.
  \<^item> \<^verbatim>\<open>json::parse\<close> throws \<^verbatim>\<open>parse_error.101\<close> on an empty input.
\<close>

datatype utf8_state =
    Accept | Reject | Cont1 | Cont2 | Cont3 | After_E0 | After_ED | After_F0 | After_F4

definition utf8_step :: "utf8_state \<Rightarrow> char \<Rightarrow> utf8_state" where
  "utf8_step st c =
     (let b = (of_char c :: nat);
          continuation = (0x80 \<le> b \<and> b \<le> 0xBF)
      in case st of
           Accept \<Rightarrow>
             if b \<le> 0x7F then Accept
             else if 0xC2 \<le> b \<and> b \<le> 0xDF then Cont1
             else if b = 0xE0 then After_E0
             else if b = 0xED then After_ED
             else if 0xE1 \<le> b \<and> b \<le> 0xEF then Cont2
             else if b = 0xF0 then After_F0
             else if 0xF1 \<le> b \<and> b \<le> 0xF3 then Cont3
             else if b = 0xF4 then After_F4
             else Reject
         | Cont1 \<Rightarrow> if continuation then Accept else Reject
         | Cont2 \<Rightarrow> if continuation then Cont1 else Reject
         | Cont3 \<Rightarrow> if continuation then Cont2 else Reject
         | After_E0 \<Rightarrow> if 0xA0 \<le> b \<and> b \<le> 0xBF then Cont1 else Reject
         | After_ED \<Rightarrow> if 0x80 \<le> b \<and> b \<le> 0x9F then Cont1 else Reject
         | After_F0 \<Rightarrow> if 0x90 \<le> b \<and> b \<le> 0xBF then Cont2 else Reject
         | After_F4 \<Rightarrow> if 0x80 \<le> b \<and> b \<le> 0x8F then Cont2 else Reject
         | Reject \<Rightarrow> Reject)"

definition utf8_valid :: "string \<Rightarrow> bool" where
  "utf8_valid s = (foldl utf8_step Accept s = Accept)"

text \<open>Every string of a document, the keys of its objects included, is accepted.\<close>

fun strings_valid :: "json \<Rightarrow> bool" where
  "strings_valid (JString s) = utf8_valid s"
| "strings_valid (JArray xs) = list_all strings_valid xs"
| "strings_valid (JObject kvs) =
     list_all (\<lambda>kv. utf8_valid (fst kv) \<and> strings_valid (snd kv)) kvs"
| "strings_valid j = True"

definition dump :: "(json \<Rightarrow> string) \<Rightarrow> json \<Rightarrow> string option" where
  "dump render j = (if strings_valid j then Some (render j) else None)"

definition parse :: "(string \<Rightarrow> json option) \<Rightarrow> string \<Rightarrow> json option" where
  "parse read text = (if text = [] then None else read text)"

subsection \<open>\<^verbatim>\<open>MetaFile\<close>\<close>

text \<open>
  The files: the text of each file that exists, the paths an output stream can open, and
  whether a write fails for lack of space.
\<close>

record Disk =
  files :: "string \<Rightarrow> string option"
  writable :: "string set"
  full :: bool

text \<open>
  \<^verbatim>\<open>MetaFile::save\<close>: the stream truncates the file when it opens it, before \<^verbatim>\<open>dump\<close>
  runs; \<^verbatim>\<open>catch (...)\<close> and a stream that is not \<^verbatim>\<open>good()\<close> both give \<^verbatim>\<open>false\<close>.
\<close>

definition MetaFile_save ::
  "(json \<Rightarrow> string) \<Rightarrow> Disk \<Rightarrow> string \<Rightarrow> TaskMeta \<Rightarrow> bool \<times> Disk" where
  "MetaFile_save render disk meta_path meta =
     (if meta_path \<notin> writable disk then (False, disk)
      else
        (case dump render (taskMetaToJson meta) of
           None \<Rightarrow> (False, disk\<lparr>files := (files disk)(meta_path \<mapsto> [])\<rparr>)
         | Some text \<Rightarrow>
             if full disk then (False, disk\<lparr>files := (files disk)(meta_path \<mapsto> [])\<rparr>)
             else (True, disk\<lparr>files := (files disk)(meta_path \<mapsto> text)\<rparr>)))"

definition MetaFile_load ::
  "(string \<Rightarrow> json option) \<Rightarrow> Disk \<Rightarrow> string \<Rightarrow> TaskMeta option" where
  "MetaFile_load read disk meta_path =
     (case files disk meta_path of
        None \<Rightarrow> None
      | Some text \<Rightarrow> (case parse read text of None \<Rightarrow> None | Some j \<Rightarrow> taskMetaFromJson j))"

definition MetaFile_remove :: "Disk \<Rightarrow> string \<Rightarrow> bool \<times> Disk" where
  "MetaFile_remove disk meta_path =
     (case files disk meta_path of
        None \<Rightarrow> (False, disk)
      | Some text \<Rightarrow> (True, disk\<lparr>files := (files disk)(meta_path := None)\<rparr>))"

text \<open>The values the C++ types of the fields can hold.\<close>

definition BlockInfo_in_range :: "BlockInfo \<Rightarrow> bool" where
  "BlockInfo_in_range b =
     (is_int32 (block_id b) \<and> is_int64 (range_start b) \<and> is_int64 (range_end b) \<and>
      is_int64 (downloaded b))"

definition TaskMeta_in_range :: "TaskMeta \<Rightarrow> bool" where
  "TaskMeta_in_range meta =
     (is_int64 (file_size meta) \<and> is_int32 (max_blocks meta) \<and>
      list_all BlockInfo_in_range (blocks meta))"

text \<open>A record whose five strings are well-formed UTF-8.\<close>

definition TaskMeta_utf8 :: "TaskMeta \<Rightarrow> bool" where
  "TaskMeta_utf8 meta =
     (utf8_valid (url meta) \<and> utf8_valid (file_path meta) \<and> utf8_valid (file_name meta) \<and>
      utf8_valid (etag meta) \<and> utf8_valid (last_modified meta))"

subsection \<open>Inputs used in the scenarios\<close>

text \<open>
  The record of the test \<^verbatim>\<open>SpecialCharacters\<close>, its source read as UTF-8, with two
  blocks added.
\<close>

definition sample_meta :: TaskMeta where
  "sample_meta =
     \<lparr>url = ''https://example.com/path?q=hello&lang='' @
        [CHR 0xE4, CHR 0xB8, CHR 0xAD, CHR 0xE6, CHR 0x96, CHR 0x87],
      file_path = ''C:'' @ [CHR 0x5C] @ ''Users'' @
        [CHR 0x5C, CHR 0xE6, CHR 0xB5, CHR 0x8B, CHR 0xE8, CHR 0xAF, CHR 0x95, CHR 0x5C] @
        ''file (1).zip'',
      file_name = ''file (1).zip'',
      file_size = 1024,
      etag = [CHR 0x22] @ ''W/abc-123'' @ [CHR 0x22],
      last_modified = [],
      max_blocks = 8,
      blocks = [\<lparr>block_id = 0, range_start = 0, range_end = 511, downloaded = 512,
                  completed = True\<rparr>,
                \<lparr>block_id = 1, range_start = 512, range_end = 1023, downloaded = 100,
                  completed = False\<rparr>]\<rparr>"

text \<open>
  The record of a task added for the URL \<^verbatim>\<open>http://example.com/%D6%D0%CE%C4.zip\<close>, a
  file name in GBK: \<^verbatim>\<open>extractFileName\<close> percent-decodes the last segment of the path
  into the bytes D6 D0 CE C4 and \<^verbatim>\<open>.zip\<close>, which are not UTF-8.
\<close>

definition gbk_name :: string where
  "gbk_name = [CHR 0xD6, CHR 0xD0, CHR 0xCE, CHR 0xC4] @ ''.zip''"

definition gbk_meta :: TaskMeta where
  "gbk_meta =
     \<lparr>url = ''http://example.com/%D6%D0%CE%C4.zip'',
      file_path = ''D:/Downloads/'' @ gbk_name,
      file_name = gbk_name,
      file_size = 4194304,
      etag = [],
      last_modified = [],
      max_blocks = 8,
      blocks = [\<lparr>block_id = 0, range_start = 0, range_end = 4194303, downloaded = 1000,
                  completed = False\<rparr>]\<rparr>"

definition empty_disk :: Disk where
  "empty_disk = \<lparr>files = (\<lambda>p. None), writable = UNIV, full = False\<rparr>"

chapter \<open>Properties\<close>

section \<open>Block splitter\<close>

lemma split_loop_closed:
  "split_loop fsize n bs i off =
     map (\<lambda>k. \<lparr>block_id = k, range_start = off + (k - i) * bs,
                range_end = (if k = n - 1 then fsize - 1 else off + (k - i + 1) * bs - 1),
                downloaded = 0, completed = False\<rparr>) [i..n - 1]"
proof (induction fsize n bs i off rule: split_loop.induct)
  case (1 fsize n bs i off)
  show ?case
  proof (cases "i < n")
    case False
    then show ?thesis by (simp add: split_loop.simps)
  next
    case True
    then have up: "[i..n - 1] = i # [i + 1..n - 1]"
      by (simp add: upto_rec1)
    show ?thesis
    proof (cases "i = n - 1")
      case last: True
      then have "split_loop fsize n bs (i + 1) (off + (fsize - off)) = []"
        by (simp add: split_loop.simps)
      with last True show ?thesis
        by (subst split_loop.simps) (simp add: up)
    next
      case notlast: False
      have IH: "split_loop fsize n bs (i + 1) (off + bs) =
         map (\<lambda>k. \<lparr>block_id = k, range_start = off + bs + (k - (i + 1)) * bs,
                range_end = (if k = n - 1 then fsize - 1 else off + bs + (k - (i + 1) + 1) * bs - 1),
                downloaded = 0, completed = False\<rparr>) [i + 1..n - 1]"
        using 1 [OF True refl refl] notlast by simp
      show ?thesis
        apply (subst split_loop.simps)
        using True notlast
        apply (simp add: up IH Let_def)
        apply (simp add: algebra_simps)
        done
    qed
  qed
qed

lemma split_loop_even: "split_loop fsize n bs 0 0 = even_blocks fsize n bs"
  by (simp add: split_loop_closed even_blocks_def)

lemma even_blocks_length: "length (even_blocks fsize n bs) = nat n"
  by (simp add: even_blocks_def)

lemma even_blocks_nth:
  "k < nat n \<Longrightarrow> even_blocks fsize n bs ! k =
      \<lparr>block_id = int k, range_start = int k * bs,
       range_end = (if int k = n - 1 then fsize - 1 else (int k + 1) * bs - 1),
       downloaded = 0, completed = False\<rparr>"
  by (simp add: even_blocks_def)

lemma even_blocks_ids: "ids_consecutive (even_blocks fsize n bs)"
  by (simp add: ids_consecutive_def even_blocks_length even_blocks_nth)

lemma even_blocks_fresh: "all_fresh (even_blocks fsize n bs)"
  by (auto simp: all_fresh_def even_blocks_def)

lemma even_blocks_contiguous: "contiguous (even_blocks fsize n bs)"
  unfolding contiguous_def
proof (intro allI impI)
  fix i assume "i + 1 < length (even_blocks fsize n bs)"
  then have lt: "i + 1 < nat n" by (simp add: even_blocks_length)
  then have "int i \<noteq> n - 1" by linarith
  with lt show "range_end (even_blocks fsize n bs ! i) + 1 = range_start (even_blocks fsize n bs ! (i + 1))"
    by (simp add: even_blocks_nth algebra_simps)
qed

lemma even_blocks_covers:
  assumes n: "1 \<le> n" and bs: "1 \<le> bs" and fit: "n * bs \<le> fsize"
  shows "covers (even_blocks fsize n bs) fsize"
proof -
  have ne: "even_blocks fsize n bs \<noteq> []"
    using n by (simp add: even_blocks_def)
  have h: "range_start (hd (even_blocks fsize n bs)) = 0"
    using n by (simp add: hd_conv_nth ne even_blocks_nth)
  have l: "range_end (last (even_blocks fsize n bs)) = fsize - 1"
    using n by (simp add: last_conv_nth ne even_blocks_length even_blocks_nth)
  have r: "range_start b \<le> range_end b" if "b \<in> set (even_blocks fsize n bs)" for b
  proof -
    from that obtain k where k: "0 \<le> k" "k \<le> n - 1"
      and b: "b = \<lparr>block_id = k, range_start = k * bs,
                range_end = (if k = n - 1 then fsize - 1 else (k + 1) * bs - 1),
                downloaded = 0, completed = False\<rparr>"
      by (auto simp: even_blocks_def)
    show ?thesis
    proof (cases "k = n - 1")
      case True
      have "(n - 1) * bs = n * bs - bs" by (simp add: algebra_simps)
      with fit bs have "(n - 1) * bs \<le> fsize - 1" by linarith
      with True b show ?thesis by simp
    next
      case False
      with b bs show ?thesis by (simp add: algebra_simps)
    qed
  qed
  from ne h l r show ?thesis by (simp add: covers_def)
qed

text \<open>
  Claim C3. For every \<open>(file_size, num_blocks, range_supported)\<close>, \<^verbatim>\<open>splitBlocks\<close>
  throws \<^verbatim>\<open>std::invalid_argument\<close> exactly when \<open>file_size \<le> 0\<close>, \<open>num_blocks < 1\<close>
  or \<open>num_blocks > 32\<close>. Otherwise the blocks it returns have consecutive ids from 0,
  \<open>downloaded = 0\<close> and \<open>completed = false\<close>, each range ends one byte before the
  next begins, the ranges start at 0 and end at \<open>file_size - 1\<close> with no empty range, and
  the number of blocks is between 1 and \<open>min num_blocks file_size\<close>. Every intermediate
  value of the C++ lies between \<open>-1\<close> and \<open>file_size\<close>, so the result on unbounded
  integers is the result on \<^verbatim>\<open>int64_t\<close>.
\<close>

theorem splitBlocks_correct:
  "(isl (splitBlocks fsize num_blocks sr) \<longleftrightarrow> fsize \<le> 0 \<or> num_blocks < 1 \<or> 32 < num_blocks) \<and>
   (\<forall>bs. splitBlocks fsize num_blocks sr = Inr bs \<longrightarrow>
      ids_consecutive bs \<and> all_fresh bs \<and> contiguous bs \<and> covers bs fsize \<and>
      1 \<le> length bs \<and> int (length bs) \<le> min num_blocks fsize)"
proof (intro conjI allI impI)
  show "isl (splitBlocks fsize num_blocks sr) \<longleftrightarrow> fsize \<le> 0 \<or> num_blocks < 1 \<or> 32 < num_blocks"
    by (simp add: splitBlocks_def Let_def)
next
  fix bs assume ok: "splitBlocks fsize num_blocks sr = Inr bs"
  then have pos: "0 < fsize" "1 \<le> num_blocks" "num_blocks \<le> 32"
    by (auto simp: splitBlocks_def split: if_splits)
  consider (single) "bs = [\<lparr>block_id = 0, range_start = 0, range_end = fsize - 1,
              downloaded = 0, completed = False\<rparr>]"
    | (even) "bs = even_blocks fsize (min num_blocks fsize) (fsize div min num_blocks fsize)"
    using ok pos by (auto simp: splitBlocks_def Let_def split_loop_even split: if_splits)
  then have "ids_consecutive bs \<and> all_fresh bs \<and> contiguous bs \<and> covers bs fsize \<and>
      1 \<le> length bs \<and> int (length bs) \<le> min num_blocks fsize"
  proof cases
    case single
    with pos show ?thesis
      by (simp add: ids_consecutive_def all_fresh_def contiguous_def covers_def)
  next
    case even
    let ?n = "min num_blocks fsize"
    have n: "1 \<le> ?n" using pos by simp
    have "?n \<le> fsize" by simp
    then have b: "1 \<le> fsize div ?n"
      using n by (metis div_self not_one_le_zero zdiv_mono1 zero_less_one_class.zero_le_one order.trans less_le_not_le linorder_not_le)
    have "fsize = ?n * (fsize div ?n) + fsize mod ?n" by simp
    moreover have "0 \<le> fsize mod ?n" using n by simp
    ultimately have fit: "?n * (fsize div ?n) \<le> fsize" by linarith
    have len: "1 \<le> nat ?n" "int (nat ?n) \<le> ?n" using n by linarith+
    show ?thesis
      unfolding even even_blocks_length
      using even_blocks_ids even_blocks_fresh even_blocks_contiguous
        even_blocks_covers [OF n b fit] len
      by blast
  qed
  then show "ids_consecutive bs" "all_fresh bs" "contiguous bs" "covers bs fsize"
    "1 \<le> length bs" "int (length bs) \<le> min num_blocks fsize" by simp_all
qed

theorem splitBlocks_correct_witness:
  "splitBlocks 4194307 4 True = Inr (even_blocks 4194307 4 1048576) \<and>
   \<not> isl (splitBlocks 4194307 4 True) \<and>
   ids_consecutive (even_blocks 4194307 4 1048576) \<and>
   all_fresh (even_blocks 4194307 4 1048576) \<and>
   contiguous (even_blocks 4194307 4 1048576) \<and>
   covers (even_blocks 4194307 4 1048576) 4194307 \<and>
   1 \<le> length (even_blocks 4194307 4 1048576) \<and>
   int (length (even_blocks 4194307 4 1048576)) \<le> 4"
proof -
  have e: "splitBlocks 4194307 4 True = Inr (even_blocks 4194307 4 1048576)"
    by (simp add: splitBlocks_def split_loop_even)
  from splitBlocks_correct [of 4194307 4 True] e show ?thesis
    by simp
qed

text \<open>
  Claim C2 fails on the code. \<^verbatim>\<open>splitBlocks(100, 4, true)\<close> returns the single block
  \<open>[0, 99]\<close> and \<^verbatim>\<open>splitBlocks(103, 4, true)\<close> the single block \<open>[0, 102]\<close>, where the
  claim, the tests \<^verbatim>\<open>EvenSplit\<close> and \<^verbatim>\<open>RemainderGoesToLastBlock\<close> and the comment in
  \<^verbatim>\<open>block_splitter.h\<close> say four blocks: the test \<^verbatim>\<open>file_size < 2 * 1024 * 1024\<close> sends
  every file below 2 MiB to the single-block branch.
\<close>

theorem splitBlocks_small_file_single_block:
  "splitBlocks 100 4 True =
     Inr [\<lparr>block_id = 0, range_start = 0, range_end = 99, downloaded = 0, completed = False\<rparr>] \<and>
   splitBlocks 103 4 True =
     Inr [\<lparr>block_id = 0, range_start = 0, range_end = 102, downloaded = 0, completed = False\<rparr>]"
  by (simp add: splitBlocks_def)

theorem splitBlocks_small_file_single_block_witness:
  "length (projr (splitBlocks 100 4 True)) = 1 \<and> length (projr (splitBlocks 103 4 True)) = 1"
proof -
  from splitBlocks_small_file_single_block
  have a: "splitBlocks 100 4 True =
     Inr [\<lparr>block_id = 0, range_start = 0, range_end = 99, downloaded = 0, completed = False\<rparr>]"
   and b: "splitBlocks 103 4 True =
     Inr [\<lparr>block_id = 0, range_start = 0, range_end = 102, downloaded = 0, completed = False\<rparr>]"
    by blast+
  show ?thesis unfolding a b by simp
qed

text \<open>
  The same for every file below 2 MiB, whatever the block count asked for; so the case
  \<^verbatim>\<open>file_size < num_blocks\<close> of the header comment (one byte per block) and the
  \<^verbatim>\<open>std::min\<close> of the code are never reached. From 2 MiB on the split is the even one
  of the claim, the last block taking the remainder.
\<close>

lemma splitBlocks_below_2MiB:
  "0 < fsize \<Longrightarrow> fsize < 2097152 \<Longrightarrow> 1 \<le> n \<Longrightarrow> n \<le> 32 \<Longrightarrow>
     splitBlocks fsize n sr =
       Inr [\<lparr>block_id = 0, range_start = 0, range_end = fsize - 1, downloaded = 0,
             completed = False\<rparr>]"
  by (simp add: splitBlocks_def)

lemma splitBlocks_at_4MiB:
  "splitBlocks 4194304 4 True =
     Inr [\<lparr>block_id = 0, range_start = 0, range_end = 1048575, downloaded = 0, completed = False\<rparr>,
          \<lparr>block_id = 1, range_start = 1048576, range_end = 2097151, downloaded = 0, completed = False\<rparr>,
          \<lparr>block_id = 2, range_start = 2097152, range_end = 3145727, downloaded = 0, completed = False\<rparr>,
          \<lparr>block_id = 3, range_start = 3145728, range_end = 4194303, downloaded = 0, completed = False\<rparr>] \<and>
   map range_size (projr (splitBlocks 4194307 4 True)) = [1048576, 1048576, 1048576, 1048579]"
  by (simp add: splitBlocks_def split_loop.simps range_size_def)

section \<open>Task queue reordering\<close>

lemma find_if_le: "find_if tid ts \<le> length ts"
  by (induction ts) auto

lemma find_if_lt_iff: "find_if tid ts < length ts \<longleftrightarrow> tid \<in> task_id ` set ts"
  by (induction ts) auto

lemma find_if_hit: "find_if tid ts < length ts \<Longrightarrow> task_id (ts ! find_if tid ts) = tid"
  by (induction ts) (auto split: if_splits)

lemma find_if_first: "j < find_if tid ts \<Longrightarrow> task_id (ts ! j) \<noteq> tid"
proof (induction ts arbitrary: j)
  case Nil
  then show ?case by simp
next
  case (Cons t ts)
  then show ?case by (cases j) (auto split: if_splits)
qed

lemma mset_iter_swap: "i < length xs \<Longrightarrow> j < length xs \<Longrightarrow> mset (iter_swap i j xs) = mset xs"
  unfolding iter_swap_def by (simp add: mset_swap)

text \<open>
  Claim C10. With \<open>p\<close> the position of the first task whose id is \<open>tid\<close>
  (\<open>find_if\<close>; it is the length of the list exactly when no task has the id):
  \<^verbatim>\<open>moveUp\<close> returns true exactly when the id is present and \<open>p\<close> is not the first
  position, and then the tasks at \<open>p - 1\<close> and \<open>p\<close> have changed places; \<^verbatim>\<open>moveDown\<close>
  returns true exactly when the id is present and \<open>p\<close> is not the last position, and then
  the tasks at \<open>p\<close> and \<open>p + 1\<close> have changed places; when either returns false the queue is
  as it was. In every case the tasks of the queue, with their states, are the same multiset
  and \<open>active_count\<close> is unchanged.
\<close>

theorem moveUp_moveDown_frame:
  "(find_if tid (tasks q) < length (tasks q) \<longleftrightarrow> tid \<in> task_id ` set (tasks q)) \<and>
   (find_if tid (tasks q) < length (tasks q) \<longrightarrow>
      task_id (tasks q ! find_if tid (tasks q)) = tid \<and>
      (\<forall>j < find_if tid (tasks q). task_id (tasks q ! j) \<noteq> tid)) \<and>
   (fst (moveUp tid q) \<longleftrightarrow> find_if tid (tasks q) < length (tasks q) \<and> 0 < find_if tid (tasks q)) \<and>
   (fst (moveDown tid q) \<longleftrightarrow> find_if tid (tasks q) + 1 < length (tasks q)) \<and>
   (fst (moveUp tid q) \<longrightarrow>
      snd (moveUp tid q) = q\<lparr>tasks := (tasks q)[find_if tid (tasks q) := tasks q ! (find_if tid (tasks q) - 1),
                                 find_if tid (tasks q) - 1 := tasks q ! find_if tid (tasks q)]\<rparr>) \<and>
   (fst (moveDown tid q) \<longrightarrow>
      snd (moveDown tid q) = q\<lparr>tasks := (tasks q)[find_if tid (tasks q) := tasks q ! (find_if tid (tasks q) + 1),
                                 find_if tid (tasks q) + 1 := tasks q ! find_if tid (tasks q)]\<rparr>) \<and>
   (\<not> fst (moveUp tid q) \<longrightarrow> snd (moveUp tid q) = q) \<and>
   (\<not> fst (moveDown tid q) \<longrightarrow> snd (moveDown tid q) = q) \<and>
   mset (tasks (snd (moveUp tid q))) = mset (tasks q) \<and>
   mset (tasks (snd (moveDown tid q))) = mset (tasks q) \<and>
   active_count (snd (moveUp tid q)) = active_count q \<and>
   active_count (snd (moveDown tid q)) = active_count q"
proof -
  let ?p = "find_if tid (tasks q)"
  have le: "?p \<le> length (tasks q)" by (rule find_if_le)
  have up: "mset (tasks (snd (moveUp tid q))) = mset (tasks q)"
    using le by (auto simp: moveUp_def Let_def mset_iter_swap)
  have down: "mset (tasks (snd (moveDown tid q))) = mset (tasks q)"
    using le by (auto simp: moveDown_def Let_def mset_iter_swap)
  have hit: "?p < length (tasks q) \<longrightarrow>
      task_id (tasks q ! ?p) = tid \<and> (\<forall>j < ?p. task_id (tasks q ! j) \<noteq> tid)"
    using find_if_hit find_if_first by blast
  have rest: "(fst (moveUp tid q) \<longleftrightarrow> ?p < length (tasks q) \<and> 0 < ?p) \<and>
   (fst (moveDown tid q) \<longleftrightarrow> ?p + 1 < length (tasks q)) \<and>
   (fst (moveUp tid q) \<longrightarrow>
      snd (moveUp tid q) = q\<lparr>tasks := (tasks q)[?p := tasks q ! (?p - 1), ?p - 1 := tasks q ! ?p]\<rparr>) \<and>
   (fst (moveDown tid q) \<longrightarrow>
      snd (moveDown tid q) = q\<lparr>tasks := (tasks q)[?p := tasks q ! (?p + 1), ?p + 1 := tasks q ! ?p]\<rparr>) \<and>
   (\<not> fst (moveUp tid q) \<longrightarrow> snd (moveUp tid q) = q) \<and>
   (\<not> fst (moveDown tid q) \<longrightarrow> snd (moveDown tid q) = q) \<and>
   active_count (snd (moveUp tid q)) = active_count q \<and>
   active_count (snd (moveDown tid q)) = active_count q"
    using le by (cases "tasks q") (auto simp: moveUp_def moveDown_def Let_def iter_swap_def)
  from find_if_lt_iff [of tid "tasks q"] hit rest up down show ?thesis by blast
qed

theorem moveUp_moveDown_frame_witness:
  "fst (moveUp 2 queue123) \<and>
   map task_id (tasks (snd (moveUp 2 queue123))) = [2, 1, 3] \<and>
   fst (moveDown 2 queue123) \<and>
   map task_id (tasks (snd (moveDown 2 queue123))) = [1, 3, 2] \<and>
   \<not> fst (moveUp 1 queue123) \<and> snd (moveUp 1 queue123) = queue123 \<and>
   \<not> fst (moveDown 3 queue123) \<and> snd (moveDown 3 queue123) = queue123 \<and>
   \<not> fst (moveUp 7 queue123) \<and> snd (moveDown 7 queue123) = queue123"
proof -
  have p: "find_if 2 (tasks queue123) = 1" "find_if 1 (tasks queue123) = 0"
    "find_if 3 (tasks queue123) = 2" "find_if 7 (tasks queue123) = 3"
    "length (tasks queue123) = 3"
    by (simp_all add: queue123_def Task_new_def)
  have ts: "tasks queue123 = [Task_new 1 1, Task_new 2 1, Task_new 3 1]"
    by (simp add: queue123_def)
  have ids: "task_id (Task_new 1 1) = 1" "task_id (Task_new 2 1) = 2" "task_id (Task_new 3 1) = 3"
    by (simp_all add: Task_new_def)
  from moveUp_moveDown_frame [of 2 queue123] moveUp_moveDown_frame [of 1 queue123]
    moveUp_moveDown_frame [of 3 queue123] moveUp_moveDown_frame [of 7 queue123]
  show ?thesis
    unfolding p by (simp add: ts ids)
qed

section \<open>Task state machine\<close>

lemmas task_defs = Task_start_def Task_pause_def Task_resume_def Task_cancel_def Task_setState_def
  Task_saveMeta_def Task_checkCompletion_def Task_onBlockProgress_def Block_pause_def Block_new_def
  allocateFile_def createBlocks_def allocate_and_split_def fetchFileInfoAndStart_def start_body_def
  server_changed_def resume_steps_def resume_body_def at_block_def worker_enter_def worker_written_def
  worker_return_def Task_new_def clamp_def kMaxAutoRetries_def http_message_def

lemmas queue_defs = TaskQueue_new_def tryStartNext_def addTask_def onTaskFinished_def removeTask_def
  setMaxConcurrent_def on_task_def num_downloading_def

text \<open>
  Claim C1 fails on the code. A queue with room admits a new task: it is \<^verbatim>\<open>Downloading\<close>
  and counted. \<^verbatim>\<open>pauseTask\<close> then moves it to \<^verbatim>\<open>Paused\<close>, and nothing tells the queue:
  \<open>active_count\<close> stays 1 with no task \<^verbatim>\<open>Downloading\<close>.
\<close>

theorem active_count_after_pause:
  "active_count (addTask (Task_new 1 8) (TaskQueue_new 3)) = 1 \<and>
   num_downloading (addTask (Task_new 1 8) (TaskQueue_new 3)) = 1 \<and>
   active_count (on_task 1 Pause (addTask (Task_new 1 8) (TaskQueue_new 3))) = 1 \<and>
   num_downloading (on_task 1 Pause (addTask (Task_new 1 8) (TaskQueue_new 3))) = 0"
  by (simp add: task_defs queue_defs)

text \<open>
  The same for every queue: \<^verbatim>\<open>start\<close>, \<^verbatim>\<open>pause\<close>, \<^verbatim>\<open>resume\<close> and \<^verbatim>\<open>cancel\<close> store the new
  state before they call \<^verbatim>\<open>setState\<close>, which then sees no change and fires no callback, so
  none of the four calls reaches \<^verbatim>\<open>onTaskStateChange\<close> and the counter is left as it was.
\<close>

lemma public_calls_make_no_callback:
  "snd (Task_start t) = []" "snd (Task_pause t) = []" "snd (Task_resume t) = []"
  "snd (Task_cancel t) = []"
  by (simp_all add: Task_start_def Task_pause_def Task_resume_def Task_cancel_def
      Task_setState_def Task_saveMeta_def Let_def)

lemma queue_not_told_of_public_calls:
  assumes "ev = Start \<or> ev = Pause \<or> ev = Resume \<or> ev = Cancel"
  shows "active_count (on_task tid ev q) = active_count q"
proof (cases "find_if tid (tasks q) = length (tasks q)")
  case True
  then show ?thesis by (simp add: on_task_def)
next
  case False
  let ?t = "tasks q ! find_if tid (tasks q)"
  from assms have "snd (Task_step ev ?t) = []"
    using public_calls_make_no_callback by auto
  then obtain t' where "Task_step ev ?t = (t', [])"
    by (cases "Task_step ev ?t") simp
  with False show ?thesis
    by (simp add: on_task_def Let_def)
qed

text \<open>
  Claim C4 fails on the code. A task that has downloaded its file is \<^verbatim>\<open>Completed\<close>, with
  the file on disk. \<^verbatim>\<open>cancel()\<close>, which \<^verbatim>\<open>TaskQueue::removeTask\<close> calls on a task in
  any state, then stores \<^verbatim>\<open>Cancelled\<close> and removes the finished file: the terminal state
  \<^verbatim>\<open>Completed\<close> has changed to another state.
\<close>

theorem cancel_on_completed_task:
  "state completed_task = Completed \<and> disk_size completed_task = Some 1000 \<and>
   state (Task_run [Cancel] completed_task) = Cancelled \<and>
   disk_size (Task_run [Cancel] completed_task) = None"
  by (simp add: completed_task_def task_defs probe_ok_def splitBlocks_def)

text \<open>
  The three other public methods are guarded by their \<^verbatim>\<open>compare_exchange_strong\<close>, and
  the progress callback by its tests of the state: on a \<^verbatim>\<open>Completed\<close> or \<^verbatim>\<open>Cancelled\<close>
  task they change nothing. \<^verbatim>\<open>cancel\<close> is the one without a guard.
\<close>

lemma guarded_calls_keep_terminal:
  assumes "state t = Completed \<or> state t = Cancelled"
  shows "Task_start t = (t, [])" "Task_pause t = (t, [])" "Task_resume t = (t, [])"
    "Task_onBlockProgress d t = (t, [])"
  using assms
  by (auto simp: Task_start_def Task_pause_def Task_resume_def Task_onBlockProgress_def)

text \<open>
  \<^verbatim>\<open>Cancelled\<close> is not kept either. The handlers in the lambdas of \<^verbatim>\<open>start\<close> and
  \<^verbatim>\<open>resume\<close> call \<^verbatim>\<open>setState(Failed)\<close> without looking at the state: a task cancelled
  while the lambda of \<^verbatim>\<open>start\<close> is still probing the server becomes \<^verbatim>\<open>Failed\<close> when the
  probe throws.
\<close>

lemma start_body_after_cancel:
  "state (Task_run [Start, Cancel] (Task_new 1 8)) = Cancelled \<and>
   state (Task_run [Start, Cancel, StartBody (probe_fails http_404)] (Task_new 1 8)) = Failed"
  by (simp add: task_defs probe_fails_def http_404_def)

text \<open>
  And a \<^verbatim>\<open>cancel()\<close> that lands inside the last progress callback, after the callback has
  read \<^verbatim>\<open>Downloading\<close>, is overwritten by \<^verbatim>\<open>checkCompletion\<close>: with \<^verbatim>\<open>Failed\<close> when
  the size of the file is known (the file is gone), with \<^verbatim>\<open>Completed\<close> when it is not.
\<close>

lemma cancel_inside_progress_callback:
  "state (last_block_done 1000) = Downloading \<and>
   state (fst (onBlockProgress_cancel_between 0 (last_block_done 1000))) = Failed \<and>
   state (last_block_done 0) = Downloading \<and>
   state (fst (onBlockProgress_cancel_between 0 (last_block_done 0))) = Completed"
  by (simp add: last_block_done_def onBlockProgress_cancel_between_def task_defs probe_ok_def
      splitBlocks_def)

text \<open>
  Claim C5 fails on the code. A task downloads a 4 MiB file in two blocks. The worker of
  block 0 ends with the \<^verbatim>\<open>HttpError\<close> of a 404, the worker of block 1 writes its range
  and returns. Both blocks have returned and the task is still \<^verbatim>\<open>Downloading\<close>, with an
  empty error message: the lambda of \<^verbatim>\<open>submitBlocks\<close> swallows the exception, and
  \<^verbatim>\<open>checkCompletion\<close> runs only when every block is completed.
\<close>

theorem failed_block_leaves_task_downloading:
  "state (Task_run [Start, StartBody (probe_ok 4194304),
                    WorkerEnter 0, WorkerEnter 1,
                    WorkerReturn 0 (Some (Http http_404)),
                    WorkerWritten 1 2097152, WorkerReturn 1 None] (Task_new 1 2)) = Downloading \<and>
   error_message (Task_run [Start, StartBody (probe_ok 4194304),
                    WorkerEnter 0, WorkerEnter 1,
                    WorkerReturn 0 (Some (Http http_404)),
                    WorkerWritten 1 2097152, WorkerReturn 1 None] (Task_new 1 2)) = []"
  by (simp add: task_defs probe_ok_def splitBlocks_def split_loop.simps)

text \<open>
  The same for every run: while the workers of a block that is not completed end only in
  exceptions, no step of any block worker changes the task's state or its error message.
\<close>

lemma onBlockProgress_incomplete:
  "incomplete_at i t \<Longrightarrow> Task_onBlockProgress d t = (t, [])"
  by (auto simp: incomplete_at_def Task_onBlockProgress_def list_all_length)

lemma incomplete_at_block:
  "incomplete_at i t \<Longrightarrow> (\<And>b. completed (info (f b)) = completed (info b)) \<Longrightarrow>
     incomplete_at i (at_block j f t)"
  by (auto simp: incomplete_at_def at_block_def nth_list_update)

lemma incomplete_at_block_other:
  "incomplete_at i t \<Longrightarrow> j \<noteq> i \<Longrightarrow> incomplete_at i (at_block j f t)"
  by (auto simp: incomplete_at_def at_block_def nth_list_update)

lemma at_block_frame [simp]:
  "state (at_block j f t) = state t" "error_message (at_block j f t) = error_message t"
  by (simp_all add: at_block_def)

lemma failing_step:
  assumes "worker_step_failing i e" and "incomplete_at i t"
  shows "incomplete_at i (fst (Task_step e t)) \<and> state (fst (Task_step e t)) = state t \<and>
         error_message (fst (Task_step e t)) = error_message t \<and> snd (Task_step e t) = []"
proof (cases e)
  case (WorkerEnter j)
  with assms show ?thesis
    by (simp add: worker_enter_def incomplete_at_block)
next
  case (WorkerWritten j n)
  let ?t = "at_block j (\<lambda>b. b\<lparr>info := (info b)\<lparr>downloaded := downloaded (info b) + n\<rparr>\<rparr>) t"
  have "incomplete_at i ?t" using assms(2) by (rule incomplete_at_block) simp
  then show ?thesis
    using assms(2) WorkerWritten
    by (simp add: worker_written_def Let_def onBlockProgress_incomplete)
next
  case (WorkerReturn j r)
  show ?thesis
  proof (cases "j = i")
    case True
    with assms WorkerReturn obtain ex where "r = Some ex" by auto
    with assms(2) WorkerReturn show ?thesis
      by (simp add: worker_return_def Let_def)
  next
    case False
    let ?t = "at_block j (\<lambda>b. b\<lparr>info := (info b)\<lparr>completed := True\<rparr>\<rparr>) t"
    have "incomplete_at i ?t" using assms(2) False by (rule incomplete_at_block_other)
    then show ?thesis
      using assms(2) WorkerReturn
      by (simp add: worker_return_def Let_def onBlockProgress_incomplete split: option.splits)
  qed
next
  case (OnBlockProgress d)
  with assms show ?thesis by (simp add: onBlockProgress_incomplete)
qed (use assms in simp_all)

lemma failed_block_never_detected:
  "list_all (worker_step_failing i) es \<Longrightarrow> incomplete_at i t \<Longrightarrow>
     state (Task_run es t) = state t \<and> error_message (Task_run es t) = error_message t"
proof (induction es arbitrary: t)
  case Nil
  then show ?case by simp
next
  case (Cons e es)
  then have "worker_step_failing i e" "list_all (worker_step_failing i) es" by simp_all
  with failing_step [of i e t] Cons.IH [of "fst (Task_step e t)"] Cons.prems(2)
  show ?case by simp
qed

section \<open>Progress monitor\<close>

text \<open>
  Claim C8 fails on the code. A monitor of unknown total (\<open>total_bytes = 0\<close>) receives
  1000 bytes at time 0 and 1000 bytes one second later; the snapshot at that moment
  computes a speed of 1000 bytes per second and, the speed being positive, an ETA of
  \<open>(0 - 2000) / 1000 = -2\<close> seconds, not \<open>-1\<close>. Every value of this run is exact in
  \<^verbatim>\<open>double\<close>.
\<close>

theorem eta_with_unknown_total:
  "speed_bytes_per_sec
     (fst (snapshot 1000000000 (addBytes 1000000000 1000 (addBytes 0 1000 (ProgressMonitor_new 0)))))
     = 1000 \<and>
   remaining_seconds
     (fst (snapshot 1000000000 (addBytes 1000000000 1000 (addBytes 0 1000 (ProgressMonitor_new 0)))))
     = - 2"
  by (simp add: snapshot_def addBytes_def ProgressMonitor_new_def WINDOW_SIZE_SEC_def cast_int_def
      is_int32_def Let_def)

text \<open>What \<^verbatim>\<open>snapshot\<close> computes in general: the total is not consulted.\<close>

lemma snapshot_eta:
  "remaining_seconds (fst (snapshot now pm)) =
     (if speed_bytes_per_sec (fst (snapshot now pm)) > 0
      then cast_int (real_of_int (pm_total_bytes pm - pm_downloaded_bytes pm)
                       / speed_bytes_per_sec (fst (snapshot now pm)))
      else - 1)"
  by (simp add: snapshot_def Let_def)

section \<open>Token bucket\<close>

text \<open>
  Claim C9, as stated, fails: with \<open>rate = 0\<close> a cancelled bucket still grants every
  request.
\<close>

theorem acquire_after_cancel_counterexample:
  "fst (acquire exact_tokens 100 5 [] (TokenBucket_cancel (TokenBucket_new 0 0))) = Some 100"
  by (simp add: acquire_def TokenBucket_cancel_def TokenBucket_new_def)

lemma refill_cancelled [simp]: "cancelled (refill fp now tb) = cancelled tb"
  by (simp add: refill_def Let_def)

lemma setRate_cancelled [simp]: "cancelled (setRate fp r now tb) = cancelled tb"
  by (simp add: setRate_def Let_def)

lemma env_call_cancelled: "cancelled tb \<Longrightarrow> cancelled (env_call fp c tb)"
  by (cases c) (simp_all add: TokenBucket_cancel_def Let_def)

lemma fold_env_call_cancelled: "cancelled tb \<Longrightarrow> cancelled (fold (env_call fp) cs tb)"
  by (induction cs arbitrary: tb) (simp_all add: env_call_cancelled)

lemma fold_env_call_EnvCancel: "EnvCancel \<in> set cs \<Longrightarrow> cancelled (fold (env_call fp) cs tb)"
proof (induction cs arbitrary: tb)
  case Nil
  then show ?case by simp
next
  case (Cons c cs)
  show ?case
  proof (cases "c = EnvCancel")
    case True
    then show ?thesis by (simp add: TokenBucket_cancel_def fold_env_call_cancelled)
  next
    case False
    with Cons show ?thesis by simp
  qed
qed

text \<open>
  A call that is still waiting after the waits \<open>ws\<close>, and whose next wait sees a
  \<^verbatim>\<open>cancel()\<close>: when it wakes it returns 0, or \<open>n\<close> if the rate is 0 by then.
\<close>

lemma acquire_loop_cancel_in_wait:
  "fst (acquire_loop fp n now ws tb) = None \<Longrightarrow> EnvCancel \<in> set (during w) \<Longrightarrow>
     (fst (acquire_loop fp n now (ws @ w # ws') tb) = Some 0 \<and>
      rate (snd (acquire_loop fp n now (ws @ w # ws') tb)) \<noteq> 0) \<or>
     (fst (acquire_loop fp n now (ws @ w # ws') tb) = Some n \<and>
      rate (snd (acquire_loop fp n now (ws @ w # ws') tb)) = 0)"
proof (induction ws arbitrary: now tb)
  case Nil
  let ?tb1 = "refill fp now tb"
  let ?tb2 = "fold (env_call fp) (during w) ?tb1"
  from Nil(1) have a: "\<not> cancelled tb" "\<not> n \<le> tokens ?tb1"
    by (auto simp: acquire_loop.simps [of fp n now "[]" tb] Let_def split: if_splits)
  from Nil(2) have c: "cancelled ?tb2" by (rule fold_env_call_EnvCancel)
  have r: "acquire_loop fp n now ([] @ w # ws') tb =
      (if rate ?tb2 = 0 then (Some n, ?tb2) else acquire_loop fp n (woke_at w) ws' ?tb2)"
    using a by (simp add: acquire_loop.simps [of fp n now "w # ws'" tb] Let_def)
  have "acquire_loop fp n (woke_at w) ws' ?tb2 = (Some 0, ?tb2)"
    using c by (simp add: acquire_loop.simps)
  with r show ?case by simp
next
  case (Cons v vs)
  let ?tb1 = "refill fp now tb"
  let ?tb2 = "fold (env_call fp) (during v) ?tb1"
  from Cons.prems(1) have a: "\<not> cancelled tb" "\<not> n \<le> tokens ?tb1" "rate ?tb2 \<noteq> 0"
    "fst (acquire_loop fp n (woke_at v) vs ?tb2) = None"
    by (auto simp: acquire_loop.simps [of fp n now "v # vs" tb] Let_def split: if_splits)
  have r: "acquire_loop fp n now ((v # vs) @ w # ws') tb =
      acquire_loop fp n (woke_at v) (vs @ w # ws') ?tb2"
    using a by (simp add: acquire_loop.simps [of fp n now "v # vs @ w # ws'" tb] Let_def)
  from Cons.IH [OF a(4) Cons.prems(2)] show ?case unfolding r .
qed

text \<open>
  Claim C9, amended. For \<open>n > 0\<close>: on a cancelled bucket whose rate is not 0,
  \<^verbatim>\<open>acquire(n)\<close> returns 0 at once and leaves the bucket as it is; on a bucket whose rate
  is 0 it returns \<open>n\<close>, cancelled or not; and a call that is waiting when \<^verbatim>\<open>cancel()\<close>
  arrives, in its first wait or in any later one (it is still waiting after the waits
  \<open>ws\<close>, and \<^verbatim>\<open>cancel()\<close> is called during its next wait \<open>w\<close>), returns when it wakes
  from that wait: 0, with the rate not 0, or \<open>n\<close>, with the rate 0 by then.
\<close>

theorem acquire_after_cancel:
  "0 < n \<Longrightarrow>
     (cancelled tb \<and> rate tb \<noteq> 0 \<longrightarrow> acquire fp n now ws tb = (Some 0, tb)) \<and>
     (rate tb = 0 \<longrightarrow> acquire fp n now ws tb = (Some n, tb)) \<and>
     (fst (acquire fp n now ws tb) = None \<and> EnvCancel \<in> set (during w) \<longrightarrow>
        (fst (acquire fp n now (ws @ w # ws') tb) = Some 0 \<and>
         rate (snd (acquire fp n now (ws @ w # ws') tb)) \<noteq> 0) \<or>
        (fst (acquire fp n now (ws @ w # ws') tb) = Some n \<and>
         rate (snd (acquire fp n now (ws @ w # ws') tb)) = 0))"
proof (intro conjI impI)
  assume n: "0 < n"
  { assume "cancelled tb \<and> rate tb \<noteq> 0"
    with n show "acquire fp n now ws tb = (Some 0, tb)"
      by (simp add: acquire_def acquire_loop.simps) }
  { assume "rate tb = 0"
    with n show "acquire fp n now ws tb = (Some n, tb)"
      by (simp add: acquire_def) }
  { assume a: "fst (acquire fp n now ws tb) = None \<and> EnvCancel \<in> set (during w)"
    with n have r: "rate tb \<noteq> 0"
      by (auto simp: acquire_def split: if_splits)
    with n have e: "acquire fp n now ws tb = acquire_loop fp n now ws tb"
      "acquire fp n now (ws @ w # ws') tb = acquire_loop fp n now (ws @ w # ws') tb"
      by (simp_all add: acquire_def)
    from a have "fst (acquire_loop fp n now ws tb) = None" "EnvCancel \<in> set (during w)"
      unfolding e by simp_all
    from acquire_loop_cancel_in_wait [OF this, of ws']
    show "(fst (acquire fp n now (ws @ w # ws') tb) = Some 0 \<and>
         rate (snd (acquire fp n now (ws @ w # ws') tb)) \<noteq> 0) \<or>
        (fst (acquire fp n now (ws @ w # ws') tb) = Some n \<and>
         rate (snd (acquire fp n now (ws @ w # ws') tb)) = 0)"
      unfolding e . }
qed

lemma drained_bucket_value:
  "drained_bucket =
     \<lparr>rate = 100, tokens = 0, max_tokens = 100, last_refill = 0, cancelled = False\<rparr>"
  by (simp add: drained_bucket_def acquire_def acquire_loop.simps TokenBucket_new_def refill_def
      exact_tokens_def)

theorem acquire_after_cancel_witness:
  "(0::int) < 50 \<and>
   acquire exact_tokens 50 5 [] (TokenBucket_cancel (TokenBucket_new 1000 0)) =
     (Some 0, TokenBucket_cancel (TokenBucket_new 1000 0)) \<and>
   acquire exact_tokens 50 5 [] (TokenBucket_cancel (TokenBucket_new 0 0)) =
     (Some 50, TokenBucket_cancel (TokenBucket_new 0 0)) \<and>
   fst (acquire exact_tokens 50 10 [idle_wait] drained_bucket) = None \<and>
   EnvCancel \<in> set (during cancel_wait) \<and>
   fst (acquire exact_tokens 50 10 ([idle_wait] @ cancel_wait # [idle_wait]) drained_bucket)
     = Some 0"
proof -
  have h: "fst (acquire exact_tokens 50 10 [idle_wait] drained_bucket) = None"
    unfolding drained_bucket_value
    by (simp add: acquire_def acquire_loop.simps idle_wait_def refill_def exact_tokens_def)
  have w: "EnvCancel \<in> set (during cancel_wait)"
    by (simp add: cancel_wait_def)
  have r: "rate (snd (acquire exact_tokens 50 10 ([idle_wait] @ cancel_wait # [idle_wait])
      drained_bucket)) \<noteq> 0"
    unfolding drained_bucket_value
    by (simp add: acquire_def acquire_loop.simps idle_wait_def cancel_wait_def refill_def
        exact_tokens_def TokenBucket_cancel_def)
  have c: "cancelled (TokenBucket_cancel (TokenBucket_new 1000 0)) \<and>
     rate (TokenBucket_cancel (TokenBucket_new 1000 0)) \<noteq> 0"
     "rate (TokenBucket_cancel (TokenBucket_new 0 0)) = 0"
    by (simp_all add: TokenBucket_cancel_def TokenBucket_new_def)
  from acquire_after_cancel [where n = 50 and fp = exact_tokens
        and tb = "TokenBucket_cancel (TokenBucket_new 1000 0)" and now = 5 and ws = "[]"]
    acquire_after_cancel [where n = 50 and fp = exact_tokens
        and tb = "TokenBucket_cancel (TokenBucket_new 0 0)" and now = 5 and ws = "[]"]
    acquire_after_cancel [where n = 50 and fp = exact_tokens and tb = drained_bucket
        and now = 10 and ws = "[idle_wait]" and w = cancel_wait and ws' = "[idle_wait]"]
    c h w r
  show ?thesis by simp
qed

section \<open>Retry loop of the HTTP engine\<close>

lemma backoff_eq: "0 < k \<Longrightarrow> backoff k = backoff_spec k"
  unfolding backoff_def backoff_spec_def kRetryBackoffSec_def
  by (cases "k = 1"; cases "k = 2") (auto simp: min_def nth_Cons')

lemma slept_eq: "slept k = (if k > 0 then [Slept (backoff_spec k)] else [])"
  by (simp add: slept_def backoff_eq)

lemma schedule_step:
  "a < n \<Longrightarrow> schedule a n = slept a @ [Attempted a] @ schedule (Suc a) n"
  by (simp add: schedule_def upt_conv_Cons slept_eq)

lemma schedule_empty: "\<not> a < n \<Longrightarrow> schedule a n = []"
  by (simp add: schedule_def)

lemma Attempted_in_schedule: "Attempted k \<in> set (schedule a n) \<longleftrightarrow> a \<le> k \<and> k < n"
  by (auto simp: schedule_def)

lemma count_schedule: "length (filter is_attempt (schedule a n)) = n - a"
proof -
  have "filter is_attempt (schedule a n) = map Attempted [a..<n]"
    unfolding schedule_def by (induction n) auto
  then show ?thesis by simp
qed

lemma Attempted_notin_slept [simp]: "Attempted k \<notin> set (slept j)"
  by (simp add: slept_def)

lemma retryable_transient: "isRetryableCurlCode code \<Longrightarrow> code \<noteq> CURLE_OK"
  by (cases code) (simp_all add: isRetryableCurlCode_def)

lemma iteration_Continue:
  assumes "iteration strerror a k c = Continue evs e c'"
  shows "evs = slept k @ [Attempted k]" "\<not> c" "\<not> cancel_before a" "0 < k \<longrightarrow> \<not> cancel_in_sleep a"
    "threw a = None" "retried_failure a" "\<not> fatal_failure a" "c' = cancel_in_transfer a"
proof -
  from assms have pre: "\<not> c" "\<not> cancel_before a" "\<not> (0 < k \<and> cancel_in_sleep a)"
    by (auto simp: iteration_def split: if_splits)
  then show "\<not> c" "\<not> cancel_before a" "0 < k \<longrightarrow> \<not> cancel_in_sleep a" by blast+
  from assms pre show t: "threw a = None"
    by (cases "threw a") (simp_all add: iteration_def Let_def)
  from assms pre t show "evs = slept k @ [Attempted k]"
    by (auto simp: iteration_def Let_def split: if_splits)
  from assms pre t show "c' = cancel_in_transfer a"
    by (auto simp: iteration_def Let_def split: if_splits)
  from assms pre t have
    "(res a \<noteq> CURLE_OK \<and> \<not> cancel_in_transfer a \<and> isRetryableCurlCode (res a) \<and> \<not> isTlsCertError (res a))
     \<or> (res a = CURLE_OK \<and> http_code a \<ge> 400 \<and> \<not> isNonRetryableHttpStatus (http_code a))"
    by (auto simp: iteration_def Let_def split: if_splits)
  then show "retried_failure a" "\<not> fatal_failure a"
    by (cases "res a";
        auto simp: retried_failure_def fatal_failure_def isRetryableCurlCode_def
          isTlsCertError_def isNonRetryableHttpStatus_def)+
qed

lemma iteration_Stop:
  assumes "iteration strerror a k c = Stop r"
  shows "events r = [] \<or> events r = slept k \<or> events r = slept k @ [Attempted k]"
    "Attempted j \<in> set (events r) \<longrightarrow>
       j = k \<and> events r = slept k @ [Attempted k] \<and> \<not> c \<and> \<not> cancel_before a \<and> (0 < k \<longrightarrow> \<not> cancel_in_sleep a)"
    "thrown r = None \<longrightarrow>
       events r = slept k @ [Attempted k] \<and> threw a = None \<and> res a = CURLE_OK \<and> http_code a < 400"
    "fatal_failure a \<longrightarrow> (\<exists>e. thrown r = Some e \<and> \<not> isRetryable e)"
    "c \<or> cancel_before a \<or> (0 < k \<and> cancel_in_sleep a) \<longrightarrow> thrown r = Some (cancelled_error CURLE_OK 0)"
    "c \<or> cancel_before a \<longrightarrow> events r = []"
proof -
  consider (c1) "c \<or> cancel_before a"
    | (c2) "\<not> (c \<or> cancel_before a)" "0 < k \<and> cancel_in_sleep a"
    | (go) "\<not> (c \<or> cancel_before a)" "\<not> (0 < k \<and> cancel_in_sleep a)"
    by blast
  then have all: "(events r = [] \<or> events r = slept k \<or> events r = slept k @ [Attempted k]) \<and>
    (Attempted j \<in> set (events r) \<longrightarrow>
       j = k \<and> events r = slept k @ [Attempted k] \<and> \<not> c \<and> \<not> cancel_before a \<and> (0 < k \<longrightarrow> \<not> cancel_in_sleep a)) \<and>
    (thrown r = None \<longrightarrow>
       events r = slept k @ [Attempted k] \<and> threw a = None \<and> res a = CURLE_OK \<and> http_code a < 400) \<and>
    (fatal_failure a \<longrightarrow> (\<exists>e. thrown r = Some e \<and> \<not> isRetryable e)) \<and>
    (c \<or> cancel_before a \<or> (0 < k \<and> cancel_in_sleep a) \<longrightarrow> thrown r = Some (cancelled_error CURLE_OK 0)) \<and>
    (c \<or> cancel_before a \<longrightarrow> events r = [])"
  proof cases
    case c1
    with assms have "r = throw (cancelled_error CURLE_OK 0) [] True"
      by (auto simp: iteration_def)
    with c1 show ?thesis by (simp add: throw_def cancelled_error_def)
  next
    case c2
    with assms have "r = throw (cancelled_error CURLE_OK 0) (slept k) True"
      by (auto simp: iteration_def)
    with c2 show ?thesis by (simp add: throw_def cancelled_error_def)
  next
    case go
    show ?thesis
    proof (cases "threw a")
      case (Some msg)
      with assms go have "r = throw \<lparr>what = msg, curlCode = CURLE_OK, httpStatus = 0,
                              isRetryable = False\<rparr> (slept k @ [Attempted k]) (cancel_in_transfer a)"
        by (auto simp: iteration_def Let_def)
      with go Some show ?thesis by (auto simp: throw_def)
    next
      case None
      show ?thesis
      proof (cases "res a = CURLE_OK")
        case True
        with assms go None show ?thesis
          by (auto simp: iteration_def Let_def throw_def fatal_failure_def
              isNonRetryableHttpStatus_def split: if_splits)
      next
        case False
        with assms go None show ?thesis
          by (auto simp: iteration_def Let_def throw_def cancelled_error_def fatal_failure_def
              isTlsCertError_def split: if_splits)
      qed
    qed
  qed
  from all show "events r = [] \<or> events r = slept k \<or> events r = slept k @ [Attempted k]" by blast
  from all show "Attempted j \<in> set (events r) \<longrightarrow>
       j = k \<and> events r = slept k @ [Attempted k] \<and> \<not> c \<and> \<not> cancel_before a \<and> (0 < k \<longrightarrow> \<not> cancel_in_sleep a)" by blast
  from all show "thrown r = None \<longrightarrow>
       events r = slept k @ [Attempted k] \<and> threw a = None \<and> res a = CURLE_OK \<and> http_code a < 400" by blast
  from all show "fatal_failure a \<longrightarrow> (\<exists>e. thrown r = Some e \<and> \<not> isRetryable e)" by blast
  from all show "c \<or> cancel_before a \<or> (0 < k \<and> cancel_in_sleep a) \<longrightarrow> thrown r = Some (cancelled_error CURLE_OK 0)" by blast
  from all show "c \<or> cancel_before a \<longrightarrow> events r = []" by blast
qed

lemma loop_done:
  "\<not> a < n \<Longrightarrow> download_loop strerror env n a le c = throw le [] c"
  by (subst download_loop.simps) simp

lemma loop_Stop:
  "a < n \<Longrightarrow> iteration strerror (env a) a c = Stop r \<Longrightarrow>
     download_loop strerror env n a le c = r"
  by (subst download_loop.simps) simp

lemma loop_Continue:
  "a < n \<Longrightarrow> iteration strerror (env a) a c = Continue evs e c' \<Longrightarrow>
     download_loop strerror env n a le c =
       (download_loop strerror env n (Suc a) e c')
         \<lparr>events := evs @ events (download_loop strerror env n (Suc a) e c')\<rparr>"
  by (subst download_loop.simps) (simp add: Let_def)

lemma loop_prefix:
  "prefix (events (download_loop strerror env n a le c)) (schedule a n)"
proof (induction strerror env n a le c rule: download_loop.induct)
  case (1 strerror env n a le c)
  show ?case
  proof (cases "a < n")
    case False
    then show ?thesis by (simp add: loop_done throw_def)
  next
    case True
    show ?thesis
    proof (cases "iteration strerror (env a) a c")
      case (Stop r)
      from iteration_Stop(1) [OF Stop]
      have "prefix (events r) (slept a @ [Attempted a] @ schedule (Suc a) n)"
        by (auto simp: prefix_def)
      with True Stop show ?thesis by (simp add: loop_Stop schedule_step)
    next
      case (Continue evs e c')
      from iteration_Continue(1) [OF Continue] have evs: "evs = slept a @ [Attempted a]" .
      from 1 [OF _ Continue] True
      have "prefix (events (download_loop strerror env n (Suc a) e c')) (schedule (Suc a) n)"
        by simp
      with True Continue evs show ?thesis
        by (simp add: loop_Continue schedule_step)
    qed
  qed
qed

lemma loop_Attempted_range:
  "Attempted k \<in> set (events (download_loop strerror env n a le c)) \<Longrightarrow> a \<le> k \<and> k < n"
  using loop_prefix [of strerror env n a le c] set_mono_prefix Attempted_in_schedule
  by blast

lemma loop_count:
  "length (filter is_attempt (events (download_loop strerror env n a le c))) \<le> n - a"
proof -
  from loop_prefix [of strerror env n a le c]
  obtain zs where "schedule a n = events (download_loop strerror env n a le c) @ zs"
    by (auto simp: prefix_def)
  then have "length (filter is_attempt (schedule a n)) =
      length (filter is_attempt (events (download_loop strerror env n a le c))) +
      length (filter is_attempt zs)"
    by simp
  then show ?thesis by (simp add: count_schedule)
qed

lemma loop_cancelled_on_entry:
  "c \<Longrightarrow> a < n \<Longrightarrow>
     events (download_loop strerror env n a le c) = [] \<and>
     thrown (download_loop strerror env n a le c) = Some (cancelled_error CURLE_OK 0)"
proof -
  assume c: c and lt: "a < n"
  then obtain r where r: "iteration strerror (env a) a c = Stop r"
    by (auto simp: iteration_def)
  with iteration_Stop(5,6) [OF r] c lt show ?thesis by (simp add: loop_Stop)
qed

lemma loop_retry_only_transient:
  "Attempted (Suc k) \<in> set (events (download_loop strerror env n a le c)) \<Longrightarrow> a \<le> k \<Longrightarrow>
     threw (env k) = None \<and> retried_failure (env k) \<and> \<not> cancel_in_transfer (env k)"
proof (induction strerror env n a le c rule: download_loop.induct)
  case (1 strerror env n a le c)
  show ?case
  proof (cases "a < n")
    case False
    with 1(2) show ?thesis by (simp add: loop_done throw_def)
  next
    case True
    show ?thesis
    proof (cases "iteration strerror (env a) a c")
      case (Stop r)
      with True 1(2) have "Attempted (Suc k) \<in> set (events r)" by (simp add: loop_Stop)
      with iteration_Stop(2) [OF Stop, of "Suc k"] 1(3) show ?thesis by simp
    next
      case (Continue evs e c')
      note it = iteration_Continue [OF Continue]
      from 1(2) True Continue it(1) 1(3)
      have mem: "Attempted (Suc k) \<in> set (events (download_loop strerror env n (Suc a) e c'))"
        by (auto simp: loop_Continue)
      show ?thesis
      proof (cases "k = a")
        case k: True
        have "\<not> c'"
        proof
          assume c'
          with mem k have "events (download_loop strerror env n (Suc a) e True) \<noteq> []" by auto
          then show False
            using loop_cancelled_on_entry [of True "Suc a" n strerror env e]
              loop_done [of "Suc a" n strerror env e True]
            by (cases "Suc a < n") (simp_all add: throw_def)
        qed
        with it k show ?thesis by simp
      next
        case False
        with 1(3) have "Suc a \<le> k" by simp
        with 1(1) [OF _ Continue mem] True show ?thesis by simp
      qed
    qed
  qed
qed

lemma loop_checked:
  "Attempted k \<in> set (events (download_loop strerror env n a le c)) \<Longrightarrow>
     \<not> cancel_before (env k) \<and> (0 < k \<longrightarrow> \<not> cancel_in_sleep (env k))"
proof (induction strerror env n a le c rule: download_loop.induct)
  case (1 strerror env n a le c)
  show ?case
  proof (cases "a < n")
    case False
    with 1(2) show ?thesis by (simp add: loop_done throw_def)
  next
    case True
    show ?thesis
    proof (cases "iteration strerror (env a) a c")
      case (Stop r)
      with True 1(2) have "Attempted k \<in> set (events r)" by (simp add: loop_Stop)
      with iteration_Stop(2) [OF Stop, of k] show ?thesis by simp
    next
      case (Continue evs e c')
      note it = iteration_Continue [OF Continue]
      from 1(2) True Continue it(1)
      consider "k = a"
        | "Attempted k \<in> set (events (download_loop strerror env n (Suc a) e c'))"
        by (auto simp: loop_Continue)
      then show ?thesis
      proof cases
        case 1
        with it show ?thesis by simp
      next
        case 2
        with "1.IH" [OF _ Continue 2] True show ?thesis by simp
      qed
    qed
  qed
qed

lemma loop_fatal:
  "Attempted k \<in> set (events (download_loop strerror env n a le c)) \<Longrightarrow> fatal_failure (env k) \<Longrightarrow>
     Attempted (Suc k) \<notin> set (events (download_loop strerror env n a le c)) \<and>
     (\<exists>e. thrown (download_loop strerror env n a le c) = Some e \<and> \<not> isRetryable e) \<and>
     last (events (download_loop strerror env n a le c)) = Attempted k"
proof (induction strerror env n a le c rule: download_loop.induct)
  case (1 strerror env n a le c)
  show ?case
  proof (cases "a < n")
    case False
    with 1(2) show ?thesis by (simp add: loop_done throw_def)
  next
    case True
    show ?thesis
    proof (cases "iteration strerror (env a) a c")
      case (Stop r)
      with True 1(2) have mem: "Attempted k \<in> set (events r)" by (simp add: loop_Stop)
      with iteration_Stop(2) [OF Stop, of k]
      have k: "k = a" and ev: "events r = slept a @ [Attempted a]" by simp_all
      from iteration_Stop(4) [OF Stop] 1(3) k
      have "\<exists>e. thrown r = Some e \<and> \<not> isRetryable e" by simp
      with True Stop k ev show ?thesis by (simp add: loop_Stop)
    next
      case (Continue evs e c')
      note it = iteration_Continue [OF Continue]
      let ?r = "download_loop strerror env n (Suc a) e c'"
      from 1(2) True Continue it(1)
      consider "k = a" | "Attempted k \<in> set (events ?r)"
        by (auto simp: loop_Continue)
      then show ?thesis
      proof cases
        case 1
        with it(7) "1.prems"(2) show ?thesis by simp
      next
        case 2
        from "1.IH" [OF _ Continue 2 "1.prems"(2)] True
        have IH: "Attempted (Suc k) \<notin> set (events ?r)"
          "\<exists>e. thrown ?r = Some e \<and> \<not> isRetryable e"
          "last (events ?r) = Attempted k"
          by simp_all
        from 2 have ne: "events ?r \<noteq> []" by auto
        from loop_Attempted_range [OF 2] have "Suc k \<noteq> a" by simp
        with IH ne True Continue it(1) show ?thesis
          by (simp add: loop_Continue)
      qed
    qed
  qed
qed

lemma loop_success:
  "thrown (download_loop strerror env n a le c) = None \<Longrightarrow>
     \<exists>k. events (download_loop strerror env n a le c) \<noteq> [] \<and>
         last (events (download_loop strerror env n a le c)) = Attempted k \<and>
         threw (env k) = None \<and> res (env k) = CURLE_OK \<and> http_code (env k) < 400"
proof (induction strerror env n a le c rule: download_loop.induct)
  case (1 strerror env n a le c)
  show ?case
  proof (cases "a < n")
    case False
    with 1(2) show ?thesis by (simp add: loop_done throw_def)
  next
    case True
    show ?thesis
    proof (cases "iteration strerror (env a) a c")
      case (Stop r)
      with True 1(2) have "thrown r = None" by (simp add: loop_Stop)
      with iteration_Stop(3) [OF Stop] True Stop show ?thesis
        by (auto simp: loop_Stop)
    next
      case (Continue evs e c')
      let ?r = "download_loop strerror env n (Suc a) e c'"
      from 1(2) True Continue have "thrown ?r = None" by (simp add: loop_Continue)
      from "1.IH" [OF _ Continue this] True
      obtain k where "events ?r \<noteq> []" "last (events ?r) = Attempted k"
        "threw (env k) = None \<and> res (env k) = CURLE_OK \<and> http_code (env k) < 400"
        by auto
      with True Continue show ?thesis by (auto simp: loop_Continue)
    qed
  qed
qed

lemma to_string_examples: "to_string 600 = ''600''" "to_string 404 = ''404''"
  by code_simp+


text \<open>
  The rest of the policy holds, for every environment of the attempts, every configuration
  and either value of the cancellation flag on entry. \<^verbatim>\<open>HttpEngine::download\<close>
  \<^item> makes its sleeps and attempts as a prefix of: attempt, sleep 1 s, attempt, sleep 2 s,
    attempt, sleep 4 s, attempt, sleep 4 s, ..., with \<open>max_attempts\<close> attempts;
  \<^item> makes a further attempt only after an attempt that failed with a retryable curl code
    or with a status from 500 up, and during which \<^verbatim>\<open>cancel()\<close> was not called;
  \<^item> after an attempt that ends in an HTTP 4xx status, a TLS certificate failure or a
    cancelled transfer makes no further attempt and no further sleep, and throws an error
    that is not retryable;
  \<^item> makes an attempt only when the check at the top of its iteration and the check after
    its backoff sleep have both found no cancellation; called with the flag set it throws
    the cancellation error without any attempt;
  \<^item> returns normally only after an attempt that succeeded with a status below 400.
\<close>

lemma download_retry_policy:
  "prefix (events (download strerror env config c)) (schedule 0 (nat (max_attempts config))) \<and>
   length (filter is_attempt (events (download strerror env config c)))
     \<le> nat (max_attempts config) \<and>
   (\<forall>k. Attempted (Suc k) \<in> set (events (download strerror env config c)) \<longrightarrow>
        threw (env k) = None \<and> retried_failure (env k) \<and> \<not> cancel_in_transfer (env k)) \<and>
   (\<forall>k. Attempted k \<in> set (events (download strerror env config c)) \<and> fatal_failure (env k) \<longrightarrow>
        Attempted (Suc k) \<notin> set (events (download strerror env config c)) \<and>
        (\<exists>e. thrown (download strerror env config c) = Some e \<and> \<not> isRetryable e) \<and>
        last (events (download strerror env config c)) = Attempted k) \<and>
   (\<forall>k. Attempted k \<in> set (events (download strerror env config c)) \<longrightarrow>
        \<not> cancel_before (env k) \<and> (0 < k \<longrightarrow> \<not> cancel_in_sleep (env k))) \<and>
   (c \<and> 0 < max_attempts config \<longrightarrow>
        events (download strerror env config c) = [] \<and>
        thrown (download strerror env config c) = Some (cancelled_error CURLE_OK 0)) \<and>
   (thrown (download strerror env config c) = None \<longrightarrow>
        (\<exists>k. events (download strerror env config c) \<noteq> [] \<and>
             last (events (download strerror env config c)) = Attempted k \<and>
             threw (env k) = None \<and> res (env k) = CURLE_OK \<and> http_code (env k) < 400))"
proof -
  let ?n = "nat (max_attempts config)"
  let ?le = "\<lparr>what = ''Unknown error'', curlCode = CURLE_OK, httpStatus = 0, isRetryable = False\<rparr>"
  let ?r = "download_loop strerror env ?n 0 ?le c"
  have r: "download strerror env config c = ?r" by (simp add: download_def)
  have p1: "prefix (events ?r) (schedule 0 ?n)" by (rule loop_prefix)
  have p2: "length (filter is_attempt (events ?r)) \<le> ?n"
    using loop_count [of strerror env ?n 0 ?le c] by simp
  have p3: "\<forall>k. Attempted (Suc k) \<in> set (events ?r) \<longrightarrow>
      threw (env k) = None \<and> retried_failure (env k) \<and> \<not> cancel_in_transfer (env k)"
    using loop_retry_only_transient [of _ strerror env ?n 0 ?le c] by blast
  have p4: "\<forall>k. Attempted k \<in> set (events ?r) \<and> fatal_failure (env k) \<longrightarrow>
      Attempted (Suc k) \<notin> set (events ?r) \<and>
      (\<exists>e. thrown ?r = Some e \<and> \<not> isRetryable e) \<and> last (events ?r) = Attempted k"
    using loop_fatal [of _ strerror env ?n 0 ?le c] by blast
  have p5: "\<forall>k. Attempted k \<in> set (events ?r) \<longrightarrow>
      \<not> cancel_before (env k) \<and> (0 < k \<longrightarrow> \<not> cancel_in_sleep (env k))"
    using loop_checked [of _ strerror env ?n 0 ?le c] by blast
  have p6: "c \<and> 0 < max_attempts config \<longrightarrow>
      events ?r = [] \<and> thrown ?r = Some (cancelled_error CURLE_OK 0)"
  proof
    assume a: "c \<and> 0 < max_attempts config"
    then have "0 < ?n" by simp
    with a loop_cancelled_on_entry [of c 0 ?n strerror env ?le] show
      "events ?r = [] \<and> thrown ?r = Some (cancelled_error CURLE_OK 0)" by blast
  qed
  have p7: "thrown ?r = None \<longrightarrow>
      (\<exists>k. events ?r \<noteq> [] \<and> last (events ?r) = Attempted k \<and>
           threw (env k) = None \<and> res (env k) = CURLE_OK \<and> http_code (env k) < 400)"
    using loop_success [of strerror env ?n 0 ?le c] by blast
  from p1 p2 p3 p4 p5 p6 p7 show ?thesis unfolding r by blast
qed

text \<open>
  Two runs with the default configuration: a server that answers 503 twice and then 200,
  and a server that answers 404.
\<close>

lemma download_retry_policy_examples:
  "events (download (\<lambda>code. []) retry_env HttpConfig_default False)
     = [Attempted 0, Slept 1, Attempted 1, Slept 2, Attempted 2] \<and>
   thrown (download (\<lambda>code. []) retry_env HttpConfig_default False) = None \<and>
   events (download (\<lambda>code. []) not_found_env HttpConfig_default False) = [Attempted 0] \<and>
   thrown (download (\<lambda>code. []) not_found_env HttpConfig_default False)
     = Some \<lparr>what = ''HTTP error 404'', curlCode = CURLE_OK, httpStatus = 404,
             isRetryable = False\<rparr>"
  by (simp add: download_def max_attempts_def wrap32_def HttpConfig_default_def
      download_loop.simps iteration_def retry_env_def not_found_env_def ok_attempt_def slept_def
      backoff_def kRetryBackoffSec_def isNonRetryableHttpStatus_def throw_def to_string_examples
      eval_nat_numeral)

section \<open>Metadata round trip\<close>

lemma wrap32_id: "is_int32 v \<Longrightarrow> wrap32 v = v"
  by (simp add: is_int32_def wrap32_def)

lemma wrap64_id: "is_int64 v \<Longrightarrow> wrap64 v = v"
  by (simp add: is_int64_def wrap64_def)

lemma blockInfo_roundtrip:
  "BlockInfo_in_range b \<Longrightarrow> blockInfoFromJson (blockInfoToJson b) = Some b"
  by (simp add: BlockInfo_in_range_def blockInfoFromJson_def blockInfoToJson_def json_at_def
      get_int_def get_int64_def get_bool_def wrap32_id wrap64_id)

lemma blocks_roundtrip:
  "list_all BlockInfo_in_range bs \<Longrightarrow>
     those (map (blockInfoFromJson \<circ> blockInfoToJson) bs) = Some bs"
  by (induction bs) (simp_all add: blockInfo_roundtrip)

lemma taskMeta_roundtrip:
  "TaskMeta_in_range meta \<Longrightarrow> taskMetaFromJson (taskMetaToJson meta) = Some meta"
  by (simp add: TaskMeta_in_range_def taskMetaFromJson_def taskMetaToJson_def json_at_def
      get_int_def get_int64_def get_string_def elements_def wrap32_id wrap64_id blocks_roundtrip)

lemma utf8_valid_keys:
  "utf8_valid ''url''" "utf8_valid ''file_path''" "utf8_valid ''file_name''"
  "utf8_valid ''file_size''" "utf8_valid ''etag''" "utf8_valid ''last_modified''"
  "utf8_valid ''max_blocks''" "utf8_valid ''blocks''" "utf8_valid ''block_id''"
  "utf8_valid ''range_start''" "utf8_valid ''range_end''" "utf8_valid ''downloaded''"
  "utf8_valid ''completed''"
  by code_simp+

lemma strings_valid_blockInfoToJson: "strings_valid (blockInfoToJson b)"
  by (simp add: blockInfoToJson_def utf8_valid_keys)

lemma strings_valid_taskMetaToJson: "strings_valid (taskMetaToJson meta) = TaskMeta_utf8 meta"
  by (auto simp: taskMetaToJson_def TaskMeta_utf8_def utf8_valid_keys list_all_iff
      strings_valid_blockInfoToJson)

text \<open>
  Claim C7 fails on the code. A task is added for a URL whose last segment is a
  percent-encoded GBK file name; its record has a \<^verbatim>\<open>file_name\<close> and a \<^verbatim>\<open>file_path\<close>
  that are not UTF-8. \<^verbatim>\<open>MetaFile::save\<close> opens the file, \<^verbatim>\<open>dump\<close> throws, and
  \<^verbatim>\<open>catch (...)\<close> returns false: the file is left empty, and \<^verbatim>\<open>MetaFile::load\<close> returns
  no record. This holds whatever the library writes for the documents it accepts and
  whatever it reads from a text that is not empty.
\<close>

theorem save_fails_on_non_utf8_name:
  "\<not> fst (MetaFile_save render empty_disk ''D:/Downloads/x.meta'' gbk_meta) \<and>
   files (snd (MetaFile_save render empty_disk ''D:/Downloads/x.meta'' gbk_meta))
     ''D:/Downloads/x.meta'' = Some [] \<and>
   MetaFile_load read (snd (MetaFile_save render empty_disk ''D:/Downloads/x.meta'' gbk_meta))
     ''D:/Downloads/x.meta'' = None"
proof -
  have "\<not> utf8_valid gbk_name" by code_simp
  then have "\<not> strings_valid (taskMetaToJson gbk_meta)"
    by (simp add: strings_valid_taskMetaToJson TaskMeta_utf8_def gbk_meta_def)
  then show ?thesis
    by (simp add: MetaFile_save_def MetaFile_load_def dump_def parse_def empty_disk_def)
qed

text \<open>
  On a record whose strings are UTF-8 and whose integers are values of their C++ types the
  repository's own code does its part: if the library reads back the text it wrote for the
  document of the record, \<^verbatim>\<open>save\<close> returns true and \<^verbatim>\<open>load\<close> returns the record, field
  for field. The record of the test \<^verbatim>\<open>SpecialCharacters\<close> is such a record.
\<close>

lemma save_load_given_library:
  assumes "meta_path \<in> writable disk" and "\<not> full disk"
    and "TaskMeta_utf8 meta" and "TaskMeta_in_range meta"
    and "render (taskMetaToJson meta) \<noteq> []"
    and "read (render (taskMetaToJson meta)) = Some (taskMetaToJson meta)"
  shows "fst (MetaFile_save render disk meta_path meta) \<and>
         MetaFile_load read (snd (MetaFile_save render disk meta_path meta)) meta_path = Some meta"
  using assms
  by (simp add: MetaFile_save_def MetaFile_load_def dump_def parse_def
      strings_valid_taskMetaToJson taskMeta_roundtrip)

lemma sample_meta_well_formed: "TaskMeta_utf8 sample_meta \<and> TaskMeta_in_range sample_meta"
proof -
  have "utf8_valid (url sample_meta)" "utf8_valid (file_path sample_meta)"
    "utf8_valid (file_name sample_meta)" "utf8_valid (etag sample_meta)"
    "utf8_valid (last_modified sample_meta)"
    unfolding sample_meta_def by code_simp+
  moreover have "TaskMeta_in_range sample_meta"
    by (simp add: sample_meta_def TaskMeta_in_range_def BlockInfo_in_range_def is_int32_def
        is_int64_def)
  ultimately show ?thesis
    by (simp add: TaskMeta_utf8_def)
qed

end
